theory Spec2Isabelle
  imports
    Complex_Main
    "HOL-Library.Multiset"
    "HOL-Library.Sublist"
    "HOL-Library.Char_ord"
    "HOL-Library.List_Lexorder"
    "HOL-Library.Product_Lexorder"
begin

section \<open>Data model\<close>

text \<open>
  The tables of \<^verbatim>\<open>src/ipod/main.py\<close> are quivr tables; a table is modelled by the list
  of its rows, in row order. A row keeps the columns the orchestration code reads (the
  identifier columns and the sort keys) and one opaque payload for the rest.
  \<^verbatim>\<open>qv.concatenate\<close> appends the rows; \<^verbatim>\<open>fragmented()\<close> / \<^verbatim>\<open>qv.defragment\<close> concern the
  physical layout of a table only and leave its rows as they are.
\<close>

record fitted_orbit =
  fo_orbit_id :: string
  fo_payload :: nat

record fitted_orbit_member =
  fm_orbit_id :: string
  fm_obs_id :: string

record observation =
  obs_id :: string
  obs_time_days :: int
  obs_time_nanos :: int
  obs_origin_code :: string

record observer =
  observer_code :: string
  observer_time_days :: int
  observer_time_nanos :: int

record od_observations =
  od_id :: "string list"
  od_coordinates :: "observation list"
  od_observers :: "observer list"

record precovery_candidate =
  pc_orbit_id :: string
  pc_payload :: nat

record search_summary =
  ss_orbit_id :: string
  ss_payload :: nat

text \<open>The four result tables a worker and the entry point return.\<close>

record batch =
  ipod_orbits :: "fitted_orbit list"
  ipod_orbits_members :: "fitted_orbit_member list"
  ipod_precovery_candidates :: "precovery_candidate list"
  ipod_summary :: "search_summary list"

text \<open>Every raise of the source is a value of this type.\<close>

datatype error =
    LookupError string
  | RefinementError string
  | ZeroDivisionError
  | ObjectStoreError nat

datatype precovery_database = PrecoveryDatabase string

text \<open>
  What the code calls and this file does not define: the refinement routine \<^verbatim>\<open>ipod\<close>
  (with the tolerance, threshold and time-window parameters, which the entry point hands
  unchanged to every call, fixed inside it), \<^verbatim>\<open>get_observers\<close> of the observation
  table, \<^verbatim>\<open>initialize_use_ray\<close> and \<^verbatim>\<open>mp.cpu_count\<close>. They are the fields of an
  environment that every definition below takes as its first argument.
\<close>

record env =
  ipod :: "fitted_orbit list \<Rightarrow> od_observations option \<Rightarrow> precovery_database \<Rightarrow> error + batch"
  get_observers :: "observation list \<Rightarrow> observer list"
  initialize_use_ray :: "nat \<Rightarrow> bool"
  cpu_count :: nat

text \<open>
  The effects of a worker, in the order they happen: opening and closing the index,
  calling the refinement routine (for which identifier, with which observations) and
  logging an error.
\<close>

datatype event =
    DbOpen string
  | DbClose string
  | IpodCall string "od_observations option"
  | LogError string error

definition empty_batch :: batch where
  "empty_batch =
     \<lparr>ipod_orbits = [], ipod_orbits_members = [], ipod_precovery_candidates = [],
      ipod_summary = []\<rparr>"

definition defragment :: "'a list \<Rightarrow> 'a list" where
  "defragment t = t"

definition concatenate :: "'a list list \<Rightarrow> 'a list" where
  "concatenate ts = concat ts"

text \<open>
  The accumulation step that the worker (lines 124-137) and the entry point (lines
  369-387, 398-416, 452-468) repeat: concatenate each of the four tables, then defragment.
\<close>

definition merge_batch :: "batch \<Rightarrow> batch \<Rightarrow> batch" where
  "merge_batch acc b =
     \<lparr>ipod_orbits = defragment (concatenate [ipod_orbits acc, ipod_orbits b]),
      ipod_orbits_members =
        defragment (concatenate [ipod_orbits_members acc, ipod_orbits_members b]),
      ipod_precovery_candidates =
        defragment (concatenate [ipod_precovery_candidates acc, ipod_precovery_candidates b]),
      ipod_summary = defragment (concatenate [ipod_summary acc, ipod_summary b])\<rparr>"

section \<open>The chunk planner\<close>

text \<open>
  Modelled from the spec: \<^verbatim>\<open>_iterate_chunk_indices\<close> and \<^verbatim>\<open>_iterate_chunks\<close> are imported
  from \<^verbatim>\<open>adam_core.propagator.utils\<close> and are not part of the source. The spec (4.2, 8)
  has them produce, for a chunk size \<open>c \<ge> 1\<close>, the contiguous ranges
  \<open>[0, c), [c, 2c), ...\<close> covering \<open>[0, N)\<close>, the last one cut at \<open>N\<close>. The spec says
  nothing for \<open>c = 0\<close>; the model yields no range there.
\<close>

function iterate_chunk_indices_from :: "nat \<Rightarrow> nat \<Rightarrow> nat \<Rightarrow> (nat \<times> nat) list" where
  "iterate_chunk_indices_from i n c =
     (if c = 0 \<or> n \<le> i then []
      else (i, min (i + c) n) # iterate_chunk_indices_from (i + c) n c)"
  by pat_completeness auto
termination
  by (relation "measure (\<lambda>(i, n, c). n - i)") auto

definition iterate_chunk_indices :: "'a list \<Rightarrow> nat \<Rightarrow> (nat \<times> nat) list" where
  "iterate_chunk_indices iterable chunk_size =
     iterate_chunk_indices_from 0 (length iterable) chunk_size"

text \<open>The Python slice \<^verbatim>\<open>xs[i:j]\<close> for indices that are not negative.\<close>

definition slice :: "'a list \<Rightarrow> nat \<times> nat \<Rightarrow> 'a list" where
  "slice xs ij = take (snd ij - fst ij) (drop (fst ij) xs)"

definition iterate_chunks :: "'a list \<Rightarrow> nat \<Rightarrow> 'a list list" where
  "iterate_chunks iterable chunk_size =
     map (slice iterable) (iterate_chunk_indices iterable chunk_size)"

text \<open>
  Lines 326-328: \<^verbatim>\<open>np.minimum(np.ceil(len(orbit_ids) / max_processes).astype(int), chunk_size)\<close>.
  The division raises for \<open>max_processes = 0\<close>. For counts the ceiling of the quotient is
  \<open>(n + w - 1) div w\<close> (lemma \<open>ceil_div\<close> below); the floating-point quotient of the source
  has the same ceiling as long as the item count stays below \<open>2^53\<close>.
\<close>

definition effective_chunk_size :: "nat \<Rightarrow> nat \<Rightarrow> nat \<Rightarrow> error + nat" where
  "effective_chunk_size n max_processes chunk_size =
     (if max_processes = 0 then Inl ZeroDivisionError
      else Inr (min ((n + max_processes - 1) div max_processes) chunk_size))"

section \<open>The per-chunk worker\<close>

text \<open>
  Modelled from the spec: \<^verbatim>\<open>orbits.select("orbit_id", orbit_id)\<close> (line 65) is a method
  of the quivr table and is not part of the source. The spec (4.3 step 1, 7) has it select
  the candidate-orbit rows of the identifier, "absence is a hard error".
\<close>

definition select :: "fitted_orbit list \<Rightarrow> string \<Rightarrow> error + fitted_orbit list" where
  "select orbits orbit_id =
     (case filter (\<lambda>r. fo_orbit_id r = orbit_id) orbits of
        [] \<Rightarrow> Inl (LookupError orbit_id)
      | rows \<Rightarrow> Inr rows)"

text \<open>
  Lines 67-97: the observations handed to the refinement routine for one identifier.
  \<^verbatim>\<open>sort_by\<close> is a stable sort on the listed columns.
\<close>

definition orbit_observations_for ::
  "env \<Rightarrow> fitted_orbit_member list option \<Rightarrow> observation list option \<Rightarrow> string \<Rightarrow>
   od_observations option" where
  "orbit_observations_for env orbit_members observations orbit_id =
     (case orbit_members of
        None \<Rightarrow> None
      | Some members \<Rightarrow>
          (case observations of
             None \<Rightarrow> None
           | Some obs \<Rightarrow>
               let obs_ids = map fm_obs_id (filter (\<lambda>m. fm_orbit_id m = orbit_id) members);
                   orbit_observations = filter (\<lambda>ob. obs_id ob \<in> set obs_ids) obs;
                   orbit_observations =
                     sort_key (\<lambda>ob. (obs_time_days ob, obs_time_nanos ob, obs_origin_code ob))
                       orbit_observations;
                   observers = get_observers env orbit_observations;
                   observers =
                     sort_key
                       (\<lambda>ob. (observer_time_days ob, observer_time_nanos ob, observer_code ob))
                       observers
               in Some \<lparr>od_id = map obs_id orbit_observations,
                        od_coordinates = orbit_observations,
                        od_observers = observers\<rparr>))"

text \<open>
  Lines 63-137, the loop of \<^verbatim>\<open>ipod_worker\<close> over the identifiers of the chunk, with the
  four running tables as accumulator. The \<^verbatim>\<open>except\<close> clause (lines 119-122) logs and
  re-raises: the loop ends there and no table is returned.
\<close>

fun worker_loop ::
  "env \<Rightarrow> fitted_orbit list \<Rightarrow> fitted_orbit_member list option \<Rightarrow> observation list option \<Rightarrow>
   precovery_database \<Rightarrow> string list \<Rightarrow> batch \<Rightarrow> event list \<times> (error + batch)" where
  "worker_loop env orbits orbit_members observations precovery_db [] acc = ([], Inr acc)"
| "worker_loop env orbits orbit_members observations precovery_db (orbit_id # rest) acc =
     (case select orbits orbit_id of
        Inl e \<Rightarrow> ([], Inl e)
      | Inr orbit \<Rightarrow>
          let orbit_observations =
                orbit_observations_for env orbit_members observations orbit_id
          in (case ipod env orbit orbit_observations precovery_db of
                Inl e \<Rightarrow> ([IpodCall orbit_id orbit_observations, LogError orbit_id e], Inl e)
              | Inr b \<Rightarrow>
                  let r = worker_loop env orbits orbit_members observations precovery_db rest
                            (merge_batch acc b)
                  in (IpodCall orbit_id orbit_observations # fst r, snd r)))"

text \<open>
  \<^verbatim>\<open>ipod_worker\<close> (lines 26-139). Its \<^verbatim>\<open>database\<close> argument is a directory (\<open>Inl\<close>), which
  the worker opens read-only (lines 53-59), or an open index (\<open>Inr\<close>), which it uses as it
  is. The function has no statement that closes the index.
\<close>

definition ipod_worker ::
  "env \<Rightarrow> string list \<Rightarrow> fitted_orbit list \<Rightarrow> fitted_orbit_member list option \<Rightarrow>
   observation list option \<Rightarrow> string + precovery_database \<Rightarrow> event list \<times> (error + batch)" where
  "ipod_worker env orbit_ids orbits orbit_members observations database =
     (case database of
        Inl dir \<Rightarrow>
          let r = worker_loop env orbits orbit_members observations (PrecoveryDatabase dir)
                    orbit_ids empty_batch
          in (DbOpen dir # fst r, snd r)
      | Inr precovery_db \<Rightarrow>
          worker_loop env orbits orbit_members observations precovery_db orbit_ids empty_batch)"

text \<open>
  \<^verbatim>\<open>ipod_worker_remote\<close> (lines 142-203): open the index, run \<^verbatim>\<open>ipod_worker\<close> on the slice
  of the identifiers, close the index (line 201), return. When \<^verbatim>\<open>ipod_worker\<close> raises,
  line 201 is not reached.
\<close>

definition ipod_worker_remote ::
  "env \<Rightarrow> string list \<Rightarrow> nat \<times> nat \<Rightarrow> fitted_orbit list \<Rightarrow> fitted_orbit_member list option \<Rightarrow>
   observation list option \<Rightarrow> string \<Rightarrow> event list \<times> (error + batch)" where
  "ipod_worker_remote env orbit_ids orbit_ids_indices orbits orbit_members observations
     database_directory =
     (let database = PrecoveryDatabase database_directory;
          orbit_id_chunk = slice orbit_ids orbit_ids_indices;
          r = ipod_worker env orbit_id_chunk orbits orbit_members observations (Inr database)
      in (case snd r of
            Inl e \<Rightarrow> (DbOpen database_directory # fst r, Inl e)
          | Inr b \<Rightarrow> (DbOpen database_directory # fst r @ [DbClose database_directory], Inr b)))"

section \<open>The shared object store\<close>

text \<open>
  The store of the distributed runtime holds the objects that were placed, each under the
  reference \<^verbatim>\<open>ray.put\<close> returned for it: a reference is an index into the store, a new
  object takes the next index, and a freed object leaves an empty slot behind.
\<close>

datatype obj =
    ObjOrbitIds "string list"
  | ObjOrbits "fitted_orbit list"
  | ObjOrbitMembers "fitted_orbit_member list"
  | ObjObservations "observation list"

type_synonym object_store = "obj option list"

definition ray_put :: "obj \<Rightarrow> object_store \<Rightarrow> nat \<times> object_store" where
  "ray_put v s = (length s, s @ [Some v])"

definition ray_get :: "object_store \<Rightarrow> nat \<Rightarrow> error + obj" where
  "ray_get s r =
     (if r < length s then (case s ! r of None \<Rightarrow> Inl (ObjectStoreError r) | Some v \<Rightarrow> Inr v)
      else Inl (ObjectStoreError r))"

definition ray_free :: "nat list \<Rightarrow> object_store \<Rightarrow> object_store" where
  "ray_free refs s = fold (\<lambda>r s. s[r := None]) refs s"

text \<open>Reading a table of the expected kind back from the store.\<close>

definition get_orbit_ids :: "object_store \<Rightarrow> nat \<Rightarrow> error + string list" where
  "get_orbit_ids s r =
     (case ray_get s r of
        Inl e \<Rightarrow> Inl e
      | Inr v \<Rightarrow> (case v of ObjOrbitIds t \<Rightarrow> Inr t | _ \<Rightarrow> Inl (ObjectStoreError r)))"

definition get_orbits :: "object_store \<Rightarrow> nat \<Rightarrow> error + fitted_orbit list" where
  "get_orbits s r =
     (case ray_get s r of
        Inl e \<Rightarrow> Inl e
      | Inr v \<Rightarrow> (case v of ObjOrbits t \<Rightarrow> Inr t | _ \<Rightarrow> Inl (ObjectStoreError r)))"

definition get_orbit_members :: "object_store \<Rightarrow> nat \<Rightarrow> error + fitted_orbit_member list" where
  "get_orbit_members s r =
     (case ray_get s r of
        Inl e \<Rightarrow> Inl e
      | Inr v \<Rightarrow> (case v of ObjOrbitMembers t \<Rightarrow> Inr t | _ \<Rightarrow> Inl (ObjectStoreError r)))"

definition get_observations :: "object_store \<Rightarrow> nat \<Rightarrow> error + observation list" where
  "get_observations s r =
     (case ray_get s r of
        Inl e \<Rightarrow> Inl e
      | Inr v \<Rightarrow> (case v of ObjObservations t \<Rightarrow> Inr t | _ \<Rightarrow> Inl (ObjectStoreError r)))"

text \<open>An argument of type \<^verbatim>\<open>Union[T, ray.ObjectRef]\<close>.\<close>

datatype 'a input = Value 'a | Reference nat

text \<open>
  Lines 252-271: each input that is a reference is read from the store and the reference
  is kept; a value is used as it is and has no reference yet.
\<close>

record inputs =
  in_orbits :: "fitted_orbit list"
  in_orbits_ref :: "nat option"
  in_orbit_members :: "fitted_orbit_member list option"
  in_orbit_members_ref :: "nat option"
  in_observations :: "observation list option"
  in_observations_ref :: "nat option"

definition retrieve_inputs ::
  "object_store \<Rightarrow> fitted_orbit list input \<Rightarrow> fitted_orbit_member list input option \<Rightarrow>
   observation list input option \<Rightarrow> error + inputs" where
  "retrieve_inputs s orbits orbit_members observations =
     (case (case orbits of
              Value t \<Rightarrow> Inr (t, None)
            | Reference r \<Rightarrow>
                (case get_orbits s r of Inl e \<Rightarrow> Inl e | Inr t \<Rightarrow> Inr (t, Some r))) of
        Inl e \<Rightarrow> Inl e
      | Inr orbits' \<Rightarrow>
          (case (case orbit_members of
                   None \<Rightarrow> Inr (None, None)
                 | Some (Value t) \<Rightarrow> Inr (Some t, None)
                 | Some (Reference r) \<Rightarrow>
                     (case get_orbit_members s r of
                        Inl e \<Rightarrow> Inl e
                      | Inr t \<Rightarrow> Inr (Some t, Some r))) of
             Inl e \<Rightarrow> Inl e
           | Inr orbit_members' \<Rightarrow>
               (case (case observations of
                        None \<Rightarrow> Inr (None, None)
                      | Some (Value t) \<Rightarrow> Inr (Some t, None)
                      | Some (Reference r) \<Rightarrow>
                          (case get_observations s r of
                             Inl e \<Rightarrow> Inl e
                           | Inr t \<Rightarrow> Inr (Some t, Some r))) of
                  Inl e \<Rightarrow> Inl e
                | Inr observations' \<Rightarrow>
                    Inr \<lparr>in_orbits = fst orbits', in_orbits_ref = snd orbits',
                         in_orbit_members = fst orbit_members',
                         in_orbit_members_ref = snd orbit_members',
                         in_observations = fst observations',
                         in_observations_ref = snd observations'\<rparr>)))"

text \<open>
  Lines 301-324: the identifiers are always placed; each of the three tables is placed
  only when it has no reference yet (and, for the two optional ones, is not \<^verbatim>\<open>None\<close>).
  Every reference made here is appended to \<^verbatim>\<open>refs_to_free\<close>. \<open>puts\<close> lists the calls of
  \<^verbatim>\<open>ray.put\<close> in order, each with the reference it returned. The \<^verbatim>\<open>ray.get\<close> that follows
  each \<^verbatim>\<open>ray.put\<close> reads the same value back (lemma \<open>ray_get_put\<close>).
\<close>

record placement =
  pl_store :: object_store
  puts :: "(nat \<times> obj) list"
  refs_to_free :: "nat list"
  orbit_ids_ref :: nat
  orbits_ref :: nat
  orbit_members_ref :: "nat option"
  observations_ref :: "nat option"

definition place_orbit_ids :: "object_store \<Rightarrow> string list \<Rightarrow> placement" where
  "place_orbit_ids s orbit_ids =
     (let p = ray_put (ObjOrbitIds orbit_ids) s
      in \<lparr>pl_store = snd p, puts = [(fst p, ObjOrbitIds orbit_ids)], refs_to_free = [fst p],
          orbit_ids_ref = fst p, orbits_ref = 0, orbit_members_ref = None,
          observations_ref = None\<rparr>)"

definition place_orbits :: "inputs \<Rightarrow> placement \<Rightarrow> placement" where
  "place_orbits inp pl =
     (case in_orbits_ref inp of
        None \<Rightarrow>
          let p = ray_put (ObjOrbits (in_orbits inp)) (pl_store pl)
          in pl\<lparr>pl_store := snd p, puts := puts pl @ [(fst p, ObjOrbits (in_orbits inp))],
                 refs_to_free := refs_to_free pl @ [fst p], orbits_ref := fst p\<rparr>
      | Some r \<Rightarrow> pl\<lparr>orbits_ref := r\<rparr>)"

definition place_orbit_members :: "inputs \<Rightarrow> placement \<Rightarrow> placement" where
  "place_orbit_members inp pl =
     (case in_orbit_members_ref inp of
        None \<Rightarrow>
          (case in_orbit_members inp of
             None \<Rightarrow> pl\<lparr>orbit_members_ref := None\<rparr>
           | Some t \<Rightarrow>
               let p = ray_put (ObjOrbitMembers t) (pl_store pl)
               in pl\<lparr>pl_store := snd p, puts := puts pl @ [(fst p, ObjOrbitMembers t)],
                      refs_to_free := refs_to_free pl @ [fst p],
                      orbit_members_ref := Some (fst p)\<rparr>)
      | Some r \<Rightarrow> pl\<lparr>orbit_members_ref := Some r\<rparr>)"

definition place_observations :: "inputs \<Rightarrow> placement \<Rightarrow> placement" where
  "place_observations inp pl =
     (case in_observations_ref inp of
        None \<Rightarrow>
          (case in_observations inp of
             None \<Rightarrow> pl\<lparr>observations_ref := None\<rparr>
           | Some t \<Rightarrow>
               let p = ray_put (ObjObservations t) (pl_store pl)
               in pl\<lparr>pl_store := snd p, puts := puts pl @ [(fst p, ObjObservations t)],
                      refs_to_free := refs_to_free pl @ [fst p],
                      observations_ref := Some (fst p)\<rparr>)
      | Some r \<Rightarrow> pl\<lparr>observations_ref := Some r\<rparr>)"

definition place_inputs :: "object_store \<Rightarrow> string list \<Rightarrow> inputs \<Rightarrow> placement" where
  "place_inputs s orbit_ids inp =
     place_observations inp (place_orbit_members inp (place_orbits inp
       (place_orbit_ids s orbit_ids)))"

section \<open>Chunk tasks and the dispatcher\<close>

text \<open>
  A submitted chunk task (lines 336-357): the references and the index range it was given.
  The runtime resolves the references when the task runs; the result of the task is what
  \<^verbatim>\<open>ipod_worker_remote\<close> returns on the resolved arguments, and \<^verbatim>\<open>ray.get\<close> of the future
  returns that result or raises its error.
\<close>

record task =
  t_orbit_ids :: nat
  t_indices :: "nat \<times> nat"
  t_orbits :: nat
  t_orbit_members :: "nat option"
  t_observations :: "nat option"

definition run_task :: "env \<Rightarrow> object_store \<Rightarrow> string \<Rightarrow> task \<Rightarrow> event list \<times> (error + batch)" where
  "run_task env s database_directory t =
     (case get_orbit_ids s (t_orbit_ids t) of
        Inl e \<Rightarrow> ([], Inl e)
      | Inr orbit_ids \<Rightarrow>
     (case get_orbits s (t_orbits t) of
        Inl e \<Rightarrow> ([], Inl e)
      | Inr orbits \<Rightarrow>
     (case (case t_orbit_members t of
              None \<Rightarrow> Inr None
            | Some r \<Rightarrow> (case get_orbit_members s r of Inl e \<Rightarrow> Inl e | Inr m \<Rightarrow> Inr (Some m))) of
        Inl e \<Rightarrow> ([], Inl e)
      | Inr orbit_members \<Rightarrow>
     (case (case t_observations t of
              None \<Rightarrow> Inr None
            | Some r \<Rightarrow> (case get_observations s r of Inl e \<Rightarrow> Inl e | Inr m \<Rightarrow> Inr (Some m))) of
        Inl e \<Rightarrow> ([], Inl e)
      | Inr observations \<Rightarrow>
          ipod_worker_remote env orbit_ids (t_indices t) orbits orbit_members observations
            database_directory))))"

text \<open>
  What the dispatcher does, in order. \<open>Submit t n\<close>: task \<open>t\<close> is submitted while \<open>n\<close>
  tasks are outstanding; \<open>Complete t n\<close>: \<^verbatim>\<open>ray.wait\<close> is entered with \<open>n\<close> tasks
  outstanding and returns \<open>t\<close> as finished.
\<close>

datatype dispatch_event = Submit task nat | Complete task nat

text \<open>
  \<^verbatim>\<open>ray.wait(futures, num_returns=1)\<close> returns one finished task and the others, in their
  order. Which task finishes first is not decided by the program: the scheduler \<open>sched\<close>
  picks it from the outstanding tasks.
\<close>

definition ray_wait :: "(task list \<Rightarrow> nat) \<Rightarrow> task list \<Rightarrow> task \<times> task list" where
  "ray_wait sched futures =
     (let i = sched futures mod length futures
      in (futures ! i, take i futures @ drop (Suc i) futures))"

text \<open>
  Lines 333-387. The test \<^verbatim>\<open>len(futures) >= max_processes * 1.5\<close> is
  \<open>3 * max_processes \<le> 2 * length futures\<close> on counts.
\<close>

fun submit_loop ::
  "(task list \<Rightarrow> nat) \<Rightarrow> (task \<Rightarrow> error + batch) \<Rightarrow> nat \<Rightarrow> task list \<Rightarrow> task list \<Rightarrow> batch \<Rightarrow>
   dispatch_event list \<times> (error + task list \<times> batch)" where
  "submit_loop sched get max_processes [] futures totals = ([], Inr (futures, totals))"
| "submit_loop sched get max_processes (t # ts) futures totals =
     (let futures1 = futures @ [t]
      in if 3 * max_processes \<le> 2 * length futures1 then
           (let w = ray_wait sched futures1
            in (case get (fst w) of
                  Inl e \<Rightarrow>
                    ([Submit t (length futures), Complete (fst w) (length futures1)], Inl e)
                | Inr b \<Rightarrow>
                    let r = submit_loop sched get max_processes ts (snd w) (merge_batch totals b)
                    in (Submit t (length futures) # Complete (fst w) (length futures1) # fst r,
                        snd r)))
         else
           (let r = submit_loop sched get max_processes ts futures1 totals
            in (Submit t (length futures) # fst r, snd r)))"

text \<open>Lines 389-416: drain the outstanding tasks one completion at a time.\<close>

function drain_loop ::
  "(task list \<Rightarrow> nat) \<Rightarrow> (task \<Rightarrow> error + batch) \<Rightarrow> task list \<Rightarrow> batch \<Rightarrow>
   dispatch_event list \<times> (error + batch)" where
  "drain_loop sched get futures totals =
     (if futures = [] then ([], Inr totals)
      else
        (case get (fst (ray_wait sched futures)) of
           Inl e \<Rightarrow> ([Complete (fst (ray_wait sched futures)) (length futures)], Inl e)
         | Inr b \<Rightarrow>
             let r = drain_loop sched get (snd (ray_wait sched futures)) (merge_batch totals b)
             in (Complete (fst (ray_wait sched futures)) (length futures) # fst r, snd r)))"
  by pat_completeness auto
termination
proof (relation "measure (\<lambda>(sched, get, futures, totals). length futures)")
  show "wf (measure (\<lambda>(sched, get, futures, totals). length futures))"
    by simp
next
  fix sched :: "task list \<Rightarrow> nat" and get :: "task \<Rightarrow> error + batch"
    and futures :: "task list" and totals x2
  assume "futures \<noteq> []"
  then have "sched futures mod length futures < length futures"
    by simp
  then show "((sched, get, snd (ray_wait sched futures), merge_batch totals x2),
              (sched, get, futures, totals))
             \<in> measure (\<lambda>(sched, get, futures, totals). length futures)"
    by (simp add: ray_wait_def Let_def)
qed

section \<open>The entry point\<close>

text \<open>
  What a run leaves behind: the result (four tables, or the error that ended the run),
  the object store, the placements and the freed references, the dispatcher's events, and
  the calls of \<^verbatim>\<open>ipod_worker\<close> made in the calling process, each with its chunk and its
  effects.
\<close>

record run =
  result :: "error + batch"
  store :: object_store
  placed :: "(nat \<times> obj) list"
  freed :: "nat list"
  dispatch :: "dispatch_event list"
  local_workers :: "(string list \<times> event list) list"

text \<open>The task submitted for one index range (lines 336-357).\<close>

definition chunk_task :: "placement \<Rightarrow> nat \<times> nat \<Rightarrow> task" where
  "chunk_task pl orbit_ids_indices =
     \<lparr>t_orbit_ids = orbit_ids_ref pl, t_indices = orbit_ids_indices,
      t_orbits = orbits_ref pl, t_orbit_members = orbit_members_ref pl,
      t_observations = observations_ref pl\<rparr>"

text \<open>Lines 333-416: the submission loop, then the drain loop.\<close>

definition dispatch_all ::
  "(task list \<Rightarrow> nat) \<Rightarrow> (task \<Rightarrow> error + batch) \<Rightarrow> nat \<Rightarrow> task list \<Rightarrow>
   dispatch_event list \<times> (error + batch)" where
  "dispatch_all sched get max_processes tasks =
     (let r1 = submit_loop sched get max_processes tasks [] empty_batch
      in (case snd r1 of
            Inl e \<Rightarrow> (fst r1, Inl e)
          | Inr ft \<Rightarrow>
              let r2 = drain_loop sched get (fst ft) (snd ft)
              in (fst r1 @ fst r2, snd r2)))"

text \<open>
  Lines 300-422, the branch taken when \<^verbatim>\<open>use_ray\<close> holds. The references are freed (lines
  418-422) only when the loops have ended without an error.
\<close>

definition distributed_path ::
  "env \<Rightarrow> (task list \<Rightarrow> nat) \<Rightarrow> object_store \<Rightarrow> inputs \<Rightarrow> string list \<Rightarrow> string \<Rightarrow> nat \<Rightarrow> nat \<Rightarrow>
   run" where
  "distributed_path env sched s inp orbit_ids database_directory chunk_size max_processes =
     (let pl = place_inputs s orbit_ids inp
      in (case effective_chunk_size (length orbit_ids) max_processes chunk_size of
            Inl e \<Rightarrow>
              \<lparr>result = Inl e, store = pl_store pl, placed = puts pl, freed = [],
               dispatch = [], local_workers = []\<rparr>
          | Inr chunk_size' \<Rightarrow>
              let tasks = map (chunk_task pl) (iterate_chunk_indices orbit_ids chunk_size');
                  get = (\<lambda>t. snd (run_task env (pl_store pl) database_directory t));
                  d = dispatch_all sched get max_processes tasks
              in (case snd d of
                    Inl e \<Rightarrow>
                      \<lparr>result = Inl e, store = pl_store pl, placed = puts pl, freed = [],
                       dispatch = fst d, local_workers = []\<rparr>
                  | Inr totals \<Rightarrow>
                      if refs_to_free pl \<noteq> [] then
                        \<lparr>result = Inr totals,
                         store = ray_free (refs_to_free pl) (pl_store pl),
                         placed = puts pl, freed = refs_to_free pl,
                         dispatch = fst d, local_workers = []\<rparr>
                      else
                        \<lparr>result = Inr totals, store = pl_store pl, placed = puts pl,
                         freed = [], dispatch = fst d, local_workers = []\<rparr>)))"

text \<open>Lines 424-468, the branch taken otherwise: one \<^verbatim>\<open>ipod_worker\<close> call per chunk.\<close>

fun sequential_loop ::
  "env \<Rightarrow> inputs \<Rightarrow> string \<Rightarrow> string list list \<Rightarrow> batch \<Rightarrow>
   (string list \<times> event list) list \<times> (error + batch)" where
  "sequential_loop env inp database_directory [] totals = ([], Inr totals)"
| "sequential_loop env inp database_directory (orbit_ids_chunk # rest) totals =
     (let w = ipod_worker env orbit_ids_chunk (in_orbits inp) (in_orbit_members inp)
                (in_observations inp) (Inl database_directory)
      in (case snd w of
            Inl e \<Rightarrow> ([(orbit_ids_chunk, fst w)], Inl e)
          | Inr b \<Rightarrow>
              let r = sequential_loop env inp database_directory rest (merge_batch totals b)
              in ((orbit_ids_chunk, fst w) # fst r, snd r)))"

definition sequential_path ::
  "env \<Rightarrow> object_store \<Rightarrow> inputs \<Rightarrow> string list \<Rightarrow> string \<Rightarrow> nat \<Rightarrow> run" where
  "sequential_path env s inp orbit_ids database_directory chunk_size =
     (let r = sequential_loop env inp database_directory (iterate_chunks orbit_ids chunk_size)
                empty_batch
      in \<lparr>result = snd r, store = s, placed = [], freed = [], dispatch = [],
          local_workers = fst r\<rparr>)"

text \<open>Lines 296-297: \<^verbatim>\<open>max_processes\<close>, with \<^verbatim>\<open>None\<close> standing for all local cores.\<close>

definition worker_count :: "env \<Rightarrow> nat option \<Rightarrow> nat" where
  "worker_count env max_processes =
     (case max_processes of None \<Rightarrow> cpu_count env | Some n \<Rightarrow> n)"

text \<open>
  \<^verbatim>\<open>iterative_precovery_and_differential_correction\<close> (lines 209-478). \<open>s\<close> is the object
  store when the run starts and \<open>sched\<close> the order in which the runtime completes tasks.
\<close>

definition iterative_precovery_and_differential_correction ::
  "env \<Rightarrow> (task list \<Rightarrow> nat) \<Rightarrow> object_store \<Rightarrow> fitted_orbit list input \<Rightarrow>
   fitted_orbit_member list input option \<Rightarrow> observation list input option \<Rightarrow> string \<Rightarrow> nat \<Rightarrow>
   nat option \<Rightarrow> run" where
  "iterative_precovery_and_differential_correction env sched s orbits orbit_members observations
     database_directory chunk_size max_processes =
     (case retrieve_inputs s orbits orbit_members observations of
        Inl e \<Rightarrow>
          \<lparr>result = Inl e, store = s, placed = [], freed = [], dispatch = [],
           local_workers = []\<rparr>
      | Inr inp \<Rightarrow>
          if length (in_orbits inp) = 0 then
            \<lparr>result = Inr empty_batch, store = s, placed = [], freed = [], dispatch = [],
             local_workers = []\<rparr>
          else
            (let orbit_ids = map fo_orbit_id (in_orbits inp);
                 max_processes' = worker_count env max_processes;
                 use_ray = initialize_use_ray env max_processes'
             in if use_ray then
                  distributed_path env sched s inp orbit_ids database_directory chunk_size
                    max_processes'
                else
                  sequential_path env s inp orbit_ids database_directory chunk_size))"

section \<open>Notions used in the statements\<close>

text \<open>
  Lines 65-118 for one identifier: the lookup of its row and the call of the refinement
  routine, without the bookkeeping of the loop.
\<close>

definition process_orbit ::
  "env \<Rightarrow> fitted_orbit list \<Rightarrow> fitted_orbit_member list option \<Rightarrow> observation list option \<Rightarrow>
   precovery_database \<Rightarrow> string \<Rightarrow> error + batch" where
  "process_orbit env orbits orbit_members observations precovery_db orbit_id =
     (case select orbits orbit_id of
        Inl e \<Rightarrow> Inl e
      | Inr orbit \<Rightarrow>
          ipod env orbit (orbit_observations_for env orbit_members observations orbit_id)
            precovery_db)"

fun is_DbOpen :: "event \<Rightarrow> bool" where
  "is_DbOpen (DbOpen d) = True"
| "is_DbOpen ev = False"

fun is_DbClose :: "event \<Rightarrow> bool" where
  "is_DbClose (DbClose d) = True"
| "is_DbClose ev = False"

text \<open>The calls of the refinement routine among the effects of a worker, in order.\<close>

fun ipod_calls :: "event list \<Rightarrow> (string \<times> od_observations option) list" where
  "ipod_calls [] = []"
| "ipod_calls (IpodCall orbit_id obs # evs) = (orbit_id, obs) # ipod_calls evs"
| "ipod_calls (ev # evs) = ipod_calls evs"

text \<open>The tasks submitted, in order, and the number of tasks outstanding around an event.\<close>

fun submitted :: "dispatch_event list \<Rightarrow> task list" where
  "submitted [] = []"
| "submitted (Submit t n # evs) = t # submitted evs"
| "submitted (Complete t n # evs) = submitted evs"

fun outstanding :: "dispatch_event \<Rightarrow> nat" where
  "outstanding (Submit t n) = Suc n"
| "outstanding (Complete t n) = n"

text \<open>
  The tasks whose completion \<^verbatim>\<open>ray.wait\<close> has returned, in the order in which their
  results were read with \<^verbatim>\<open>ray.get\<close>.
\<close>

fun completed :: "dispatch_event list \<Rightarrow> task list" where
  "completed [] = []"
| "completed (Submit t n # evs) = completed evs"
| "completed (Complete t n # evs) = t # completed evs"

text \<open>
  Every submission that brings the number of outstanding tasks to \<open>1.5 w\<close> or more is
  followed at once by a wait on these tasks, before the next submission.
\<close>

fun waits_at_threshold :: "nat \<Rightarrow> dispatch_event list \<Rightarrow> bool" where
  "waits_at_threshold w [] = True"
| "waits_at_threshold w (Submit t n # evs) =
     ((if 3 * w \<le> 2 * Suc n
       then (case evs of Complete t' m # rest \<Rightarrow> m = Suc n | _ \<Rightarrow> False)
       else True) \<and>
      waits_at_threshold w evs)"
| "waits_at_threshold w (Complete t n # evs) = waits_at_threshold w evs"

text \<open>
  The retrieved inputs agree with the store: a table that came with a reference is the
  table the store holds under that reference.
\<close>

definition inputs_ok :: "object_store \<Rightarrow> inputs \<Rightarrow> bool" where
  "inputs_ok s inp \<longleftrightarrow>
     (case in_orbits_ref inp of
        None \<Rightarrow> True
      | Some r \<Rightarrow> get_orbits s r = Inr (in_orbits inp)) \<and>
     (case in_orbit_members_ref inp of
        None \<Rightarrow> True
      | Some r \<Rightarrow>
          (case in_orbit_members inp of
             None \<Rightarrow> False
           | Some t \<Rightarrow> get_orbit_members s r = Inr t)) \<and>
     (case in_observations_ref inp of
        None \<Rightarrow> True
      | Some r \<Rightarrow>
          (case in_observations inp of
             None \<Rightarrow> False
           | Some t \<Rightarrow> get_observations s r = Inr t))"

text \<open>
  What the placement of lines 301-324 maintains: the store only grows, by the objects put
  in order, and \<^verbatim>\<open>refs_to_free\<close> lists exactly the references of those objects. The
  \<open>reads\<close> predicates say that the references handed to the tasks resolve to the tables
  the entry point holds locally.
\<close>

definition placement_inv :: "object_store \<Rightarrow> placement \<Rightarrow> bool" where
  "placement_inv s pl \<longleftrightarrow>
     (\<exists>new. pl_store pl = s @ new \<and> map fst (puts pl) = [length s ..< length s + length new] \<and>
            map (Some \<circ> snd) (puts pl) = new) \<and>
     refs_to_free pl = map fst (puts pl)"

definition reads_ids :: "string list \<Rightarrow> placement \<Rightarrow> bool" where
  "reads_ids ids pl \<longleftrightarrow> get_orbit_ids (pl_store pl) (orbit_ids_ref pl) = Inr ids"

definition reads_orbits :: "inputs \<Rightarrow> placement \<Rightarrow> bool" where
  "reads_orbits inp pl \<longleftrightarrow> get_orbits (pl_store pl) (orbits_ref pl) = Inr (in_orbits inp)"

definition reads_orbit_members :: "inputs \<Rightarrow> placement \<Rightarrow> bool" where
  "reads_orbit_members inp pl \<longleftrightarrow>
     (case orbit_members_ref pl of
        None \<Rightarrow> in_orbit_members inp = None
      | Some r \<Rightarrow>
          (case in_orbit_members inp of
             None \<Rightarrow> False
           | Some t \<Rightarrow> get_orbit_members (pl_store pl) r = Inr t))"

definition reads_observations :: "inputs \<Rightarrow> placement \<Rightarrow> bool" where
  "reads_observations inp pl \<longleftrightarrow>
     (case observations_ref pl of
        None \<Rightarrow> in_observations inp = None
      | Some r \<Rightarrow>
          (case in_observations inp of
             None \<Rightarrow> False
           | Some t \<Rightarrow> get_observations (pl_store pl) r = Inr t))"

text \<open>
  What a worker returns for a chunk of identifiers on the retrieved inputs; the worker of
  a chunk task and the worker called in the calling process return the same.
\<close>

definition chunk_result :: "env \<Rightarrow> inputs \<Rightarrow> string \<Rightarrow> string list \<Rightarrow> error + batch" where
  "chunk_result env inp database_directory chunk =
     snd (worker_loop env (in_orbits inp) (in_orbit_members inp) (in_observations inp)
            (PrecoveryDatabase database_directory) chunk empty_batch)"

text \<open>
  The tasks the distributed path plans for a run, and the result of a task as
  \<^verbatim>\<open>ray.get\<close> delivers it.
\<close>

definition planned_tasks :: "object_store \<Rightarrow> inputs \<Rightarrow> string list \<Rightarrow> nat \<Rightarrow> nat \<Rightarrow> task list" where
  "planned_tasks s inp ids c w =
     map (chunk_task (place_inputs s ids inp))
       (iterate_chunk_indices ids (min ((length ids + w - 1) div w) c))"

definition task_result :: "env \<Rightarrow> object_store \<Rightarrow> inputs \<Rightarrow> string list \<Rightarrow> string \<Rightarrow> task \<Rightarrow> error + batch" where
  "task_result env s inp ids dir =
     (\<lambda>t. snd (run_task env (pl_store (place_inputs s ids inp)) dir t))"

text \<open>Two batches with the same rows in each of the four tables, in any order.\<close>

definition same_rows :: "batch \<Rightarrow> batch \<Rightarrow> bool" where
  "same_rows a b \<longleftrightarrow>
     mset (ipod_orbits a) = mset (ipod_orbits b) \<and>
     mset (ipod_orbits_members a) = mset (ipod_orbits_members b) \<and>
     mset (ipod_precovery_candidates a) = mset (ipod_precovery_candidates b) \<and>
     mset (ipod_summary a) = mset (ipod_summary b)"

text \<open>
  A small environment for concrete runs: the refinement routine fails on the identifier
  \<open>''bad''\<close> and otherwise returns the orbit with one summary row; the distributed runtime
  is used for more than one process.
\<close>

definition demo_orbit :: "string \<Rightarrow> fitted_orbit" where
  "demo_orbit orbit_id = \<lparr>fo_orbit_id = orbit_id, fo_payload = 0\<rparr>"

definition demo_ipod ::
  "fitted_orbit list \<Rightarrow> od_observations option \<Rightarrow> precovery_database \<Rightarrow> error + batch" where
  "demo_ipod orbit obs db =
     (if ''bad'' \<in> set (map fo_orbit_id orbit) then Inl (RefinementError ''no convergence'')
      else Inr \<lparr>ipod_orbits = orbit, ipod_orbits_members = [],
                ipod_precovery_candidates = [],
                ipod_summary = map (\<lambda>r. \<lparr>ss_orbit_id = fo_orbit_id r, ss_payload = 1\<rparr>) orbit\<rparr>)"

definition demo_env :: env where
  "demo_env =
     \<lparr>ipod = demo_ipod, get_observers = (\<lambda>obs. []), initialize_use_ray = (\<lambda>n. 1 < n),
      cpu_count = 4\<rparr>"

text \<open>What \<open>demo_ipod\<close> returns for one orbit, and value inputs without optional tables.\<close>

definition demo_result :: "string \<Rightarrow> batch" where
  "demo_result orbit_id =
     \<lparr>ipod_orbits = [demo_orbit orbit_id], ipod_orbits_members = [],
      ipod_precovery_candidates = [],
      ipod_summary = [\<lparr>ss_orbit_id = orbit_id, ss_payload = 1\<rparr>]\<rparr>"

definition demo_inputs :: "fitted_orbit list \<Rightarrow> inputs" where
  "demo_inputs orbits =
     \<lparr>in_orbits = orbits, in_orbits_ref = None, in_orbit_members = None,
      in_orbit_members_ref = None, in_observations = None, in_observations_ref = None\<rparr>"

text \<open>
  The kind of a stored object, and a store that already holds an orbit table under the
  reference \<open>0\<close>.
\<close>

fun is_ObjOrbits :: "obj \<Rightarrow> bool" where
  "is_ObjOrbits (ObjOrbits t) = True"
| "is_ObjOrbits v = False"

fun is_ObjOrbitMembers :: "obj \<Rightarrow> bool" where
  "is_ObjOrbitMembers (ObjOrbitMembers t) = True"
| "is_ObjOrbitMembers v = False"

fun is_ObjObservations :: "obj \<Rightarrow> bool" where
  "is_ObjObservations (ObjObservations t) = True"
| "is_ObjObservations v = False"

definition demo_store :: object_store where
  "demo_store = [Some (ObjOrbits [demo_orbit ''a'', demo_orbit ''b'', demo_orbit ''c''])]"

declare iterate_chunk_indices_from.simps [simp del]

declare drain_loop.simps [simp del]

section \<open>The worker: lemmas\<close>

lemma orbit_observations_for_None:
  "orbit_members = None \<or> observations = None \<Longrightarrow>
   orbit_observations_for env orbit_members observations oid = None"
  by (auto simp: orbit_observations_for_def split: option.splits)

lemma worker_loop_calls_None:
  "orbit_members = None \<or> observations = None \<Longrightarrow>
   IpodCall oid obs \<in> set (fst (worker_loop env orbits orbit_members observations db ids acc)) \<Longrightarrow>
   obs = None"
  by (induction ids arbitrary: acc)
     (auto simp: orbit_observations_for_None Let_def split: sum.splits)

lemma worker_loop_no_db_event:
  "ev \<in> set (fst (worker_loop env orbits orbit_members observations db ids acc)) \<Longrightarrow>
   \<not> is_DbOpen ev \<and> \<not> is_DbClose ev"
  by (induction ids arbitrary: acc) (auto simp: Let_def split: sum.splits)

lemma worker_loop_opens:
  "filter is_DbOpen (fst (worker_loop env orbits orbit_members observations db ids acc)) = [] \<and>
   filter is_DbClose (fst (worker_loop env orbits orbit_members observations db ids acc)) = []"
  using worker_loop_no_db_event [of _ env orbits orbit_members observations db ids acc]
  by (auto simp: filter_empty_conv)

lemma worker_loop_ok:
  "\<forall>x \<in> set ids. process_orbit env orbits orbit_members observations db x = Inr (g x) \<Longrightarrow>
   worker_loop env orbits orbit_members observations db ids acc =
     (map (\<lambda>x. IpodCall x (orbit_observations_for env orbit_members observations x)) ids,
      Inr (foldl merge_batch acc (map g ids)))"
  by (induction ids arbitrary: acc)
     (auto simp: process_orbit_def Let_def split: sum.splits)

lemma worker_loop_append:
  "\<forall>x \<in> set pre. process_orbit env orbits orbit_members observations db x = Inr (g x) \<Longrightarrow>
   worker_loop env orbits orbit_members observations db (pre @ rest) acc =
     (map (\<lambda>x. IpodCall x (orbit_observations_for env orbit_members observations x)) pre @
        fst (worker_loop env orbits orbit_members observations db rest
               (foldl merge_batch acc (map g pre))),
      snd (worker_loop env orbits orbit_members observations db rest
               (foldl merge_batch acc (map g pre))))"
  by (induction pre arbitrary: acc)
     (auto simp: process_orbit_def Let_def split: sum.splits)

lemma worker_loop_missing:
  "oid \<in> set ids \<Longrightarrow> oid \<notin> fo_orbit_id ` set orbits \<Longrightarrow>
   isl (snd (worker_loop env orbits orbit_members observations db ids acc))"
proof (induction ids arbitrary: acc)
  case Nil
  then show ?case by simp
next
  case (Cons x xs)
  show ?case
  proof (cases "x = oid")
    case True
    have "filter (\<lambda>r. fo_orbit_id r = oid) orbits = []"
      using Cons.prems(2) by (auto simp: filter_empty_conv)
    then show ?thesis using True by (simp add: select_def)
  next
    case False
    then have "oid \<in> set xs" using Cons.prems(1) by simp
    then show ?thesis using Cons.IH Cons.prems(2)
      by (auto simp: Let_def split: sum.splits)
  qed
qed

lemma ipod_calls_iff:
  "(oid, obs) \<in> set (ipod_calls evs) \<longleftrightarrow> IpodCall oid obs \<in> set evs"
  by (induction evs rule: ipod_calls.induct) auto

lemma ipod_worker_result:
  "snd (ipod_worker env ids orbits orbit_members observations database) =
   snd (worker_loop env orbits orbit_members observations
          (case database of Inl dir \<Rightarrow> PrecoveryDatabase dir | Inr db \<Rightarrow> db) ids empty_batch)"
  by (simp add: ipod_worker_def Let_def split: sum.splits)

lemma ipod_worker_remote_result:
  "snd (ipod_worker_remote env ids ix orbits orbit_members observations dir) =
   snd (worker_loop env orbits orbit_members observations (PrecoveryDatabase dir)
          (slice ids ix) empty_batch)"
  by (simp add: ipod_worker_remote_def ipod_worker_def Let_def split: sum.splits)

lemma ipod_worker_calls:
  "IpodCall oid obs \<in> set (fst (ipod_worker env ids orbits orbit_members observations database))
   \<Longrightarrow> \<exists>db acc. IpodCall oid obs \<in>
         set (fst (worker_loop env orbits orbit_members observations db ids acc))"
  by (auto simp: ipod_worker_def Let_def split: sum.splits)

lemma ipod_worker_remote_calls:
  "IpodCall oid obs \<in>
     set (fst (ipod_worker_remote env ids ix orbits orbit_members observations dir))
   \<Longrightarrow> \<exists>db acc. IpodCall oid obs \<in>
         set (fst (worker_loop env orbits orbit_members observations db (slice ids ix) acc))"
  by (auto simp: ipod_worker_remote_def ipod_worker_def Let_def split: sum.splits)

text \<open>
  The index handle on the paths that return: \<^verbatim>\<open>ipod_worker_remote\<close> closes the handle it
  opened when the chunk succeeds; \<^verbatim>\<open>ipod_worker\<close>, given a directory, opens a handle and
  never closes it.
\<close>

lemma ipod_worker_remote_closes_on_success:
  "snd (ipod_worker_remote env ids ix orbits orbit_members observations dir) = Inr b \<Longrightarrow>
   length (filter is_DbOpen
     (fst (ipod_worker_remote env ids ix orbits orbit_members observations dir))) = 1 \<and>
   length (filter is_DbClose
     (fst (ipod_worker_remote env ids ix orbits orbit_members observations dir))) = 1"
  by (auto simp: ipod_worker_remote_def ipod_worker_def Let_def worker_loop_opens
      split: sum.splits)

lemma ipod_worker_never_closes:
  "length (filter is_DbOpen
     (fst (ipod_worker env ids orbits orbit_members observations (Inl dir)))) = 1 \<and>
   length (filter is_DbClose
     (fst (ipod_worker env ids orbits orbit_members observations (Inl dir)))) = 0"
  by (simp add: ipod_worker_def Let_def worker_loop_opens)

section \<open>The planner: lemmas\<close>

lemma ceil_div:
  assumes w: "0 < w"
  shows "nat \<lceil>real n / real w\<rceil> = (n + w - 1) div w"
proof -
  define q where "q = (n + w - 1) div w"
  have lo: "q * w \<le> n + w - 1"
    by (simp add: q_def)
  have hi: "n + w - 1 < w + q * w"
    unfolding q_def using w by (rule dividend_less_div_times)
  have le: "n \<le> q * w" using hi w by simp
  have lt: "q * w < n + w" using lo w by simp
  have rw: "0 < real w" using w by simp
  have "real n \<le> real q * real w"
    using le by (metis of_nat_le_iff of_nat_mult)
  then have up: "real n / real w \<le> real_of_int (int q)"
    using rw by (simp add: pos_divide_le_eq)
  have "real q * real w < real n + real w"
    using lt by (metis of_nat_less_iff of_nat_mult of_nat_add)
  then have "(real q - 1) * real w < real n"
    by (simp add: algebra_simps)
  then have down: "real_of_int (int q) - 1 < real n / real w"
    using rw by (simp add: pos_less_divide_eq)
  have "\<lceil>real n / real w\<rceil> = int q"
    using down up by (rule ceiling_unique)
  then show ?thesis by (simp add: q_def)
qed

lemma slice_chunk:
  "slice xs (i, min (i + c) (length xs)) = take c (drop i xs)"
  by (simp add: slice_def min_def)

lemma concat_chunks_from:
  "0 < c \<Longrightarrow>
   concat (map (slice xs) (iterate_chunk_indices_from i (length xs) c)) = drop i xs"
proof (induction i "length xs" c rule: iterate_chunk_indices_from.induct)
  case (1 i c)
  show ?case
  proof (cases "length xs \<le> i")
    case True
    then show ?thesis by (subst iterate_chunk_indices_from.simps) simp
  next
    case False
    have "concat (map (slice xs) (iterate_chunk_indices_from i (length xs) c)) =
          take c (drop i xs) @ drop (i + c) xs"
      using False "1.prems" "1.hyps"
      by (subst iterate_chunk_indices_from.simps) (simp add: slice_chunk)
    also have "\<dots> = drop i xs"
      by (metis add.commute append_take_drop_id drop_drop)
    finally show ?thesis .
  qed
qed

lemma concat_iterate_chunks:
  "0 < c \<Longrightarrow> concat (iterate_chunks xs c) = xs"
  by (simp add: iterate_chunks_def iterate_chunk_indices_def concat_chunks_from)

lemma iterate_chunk_indices_from_large:
  "n \<le> c \<Longrightarrow> 0 < c \<Longrightarrow>
   iterate_chunk_indices_from i n c = (if i < n then [(i, n)] else [])"
  by (subst iterate_chunk_indices_from.simps, subst iterate_chunk_indices_from.simps) simp

section \<open>The object store and the placement: lemmas\<close>

lemma ray_get_put: "ray_get (snd (ray_put v s)) (fst (ray_put v s)) = Inr v"
  by (simp add: ray_get_def ray_put_def)

lemma ray_get_valid: "ray_get s r = Inr v \<Longrightarrow> r < length s"
  by (auto simp: ray_get_def split: if_splits)

lemma ray_get_append: "ray_get s r = Inr v \<Longrightarrow> ray_get (s @ new) r = Inr v"
  by (auto simp: ray_get_def nth_append split: if_splits option.splits)

lemma get_orbits_append: "get_orbits s r = Inr t \<Longrightarrow> get_orbits (s @ new) r = Inr t"
  by (auto simp: get_orbits_def ray_get_append split: sum.splits obj.splits)

lemma get_orbit_members_append:
  "get_orbit_members s r = Inr t \<Longrightarrow> get_orbit_members (s @ new) r = Inr t"
  by (auto simp: get_orbit_members_def ray_get_append split: sum.splits obj.splits)

lemma get_observations_append:
  "get_observations s r = Inr t \<Longrightarrow> get_observations (s @ new) r = Inr t"
  by (auto simp: get_observations_def ray_get_append split: sum.splits obj.splits)

lemma get_orbit_ids_append:
  "get_orbit_ids s r = Inr t \<Longrightarrow> get_orbit_ids (s @ new) r = Inr t"
  by (auto simp: get_orbit_ids_def ray_get_append split: sum.splits obj.splits)

lemma get_orbits_valid: "get_orbits s r = Inr t \<Longrightarrow> r < length s"
  by (auto simp: get_orbits_def dest: ray_get_valid split: sum.splits)

lemma get_orbit_members_valid: "get_orbit_members s r = Inr t \<Longrightarrow> r < length s"
  by (auto simp: get_orbit_members_def dest: ray_get_valid split: sum.splits)

lemma get_observations_valid: "get_observations s r = Inr t \<Longrightarrow> r < length s"
  by (auto simp: get_observations_def dest: ray_get_valid split: sum.splits)

lemma retrieve_inputs_ok:
  "retrieve_inputs s orbits orbit_members observations = Inr inp \<Longrightarrow> inputs_ok s inp"
  by (auto simp: retrieve_inputs_def inputs_ok_def split: input.splits option.splits sum.splits)

lemma place_orbit_ids_inv: "placement_inv s (place_orbit_ids s ids)"
  by (simp add: placement_inv_def place_orbit_ids_def ray_put_def Let_def)

lemma place_orbits_inv: "placement_inv s pl \<Longrightarrow> placement_inv s (place_orbits inp pl)"
  by (auto simp: placement_inv_def place_orbits_def ray_put_def Let_def split: option.splits)

lemma place_orbit_members_inv:
  "placement_inv s pl \<Longrightarrow> placement_inv s (place_orbit_members inp pl)"
  by (auto simp: placement_inv_def place_orbit_members_def ray_put_def Let_def
      split: option.splits)

lemma place_observations_inv:
  "placement_inv s pl \<Longrightarrow> placement_inv s (place_observations inp pl)"
  by (auto simp: placement_inv_def place_observations_def ray_put_def Let_def
      split: option.splits)

lemma place_inputs_inv: "placement_inv s (place_inputs s ids inp)"
  by (simp add: place_inputs_def place_orbit_ids_inv place_orbits_inv place_orbit_members_inv
      place_observations_inv)

lemma get_put_orbit_ids: "get_orbit_ids (s @ [Some (ObjOrbitIds t)]) (length s) = Inr t"
  by (simp add: get_orbit_ids_def ray_get_def)

lemma get_put_orbits: "get_orbits (s @ [Some (ObjOrbits t)]) (length s) = Inr t"
  by (simp add: get_orbits_def ray_get_def)

lemma get_put_orbit_members:
  "get_orbit_members (s @ [Some (ObjOrbitMembers t)]) (length s) = Inr t"
  by (simp add: get_orbit_members_def ray_get_def)

lemma get_put_observations:
  "get_observations (s @ [Some (ObjObservations t)]) (length s) = Inr t"
  by (simp add: get_observations_def ray_get_def)

lemma inputs_ok_append: "inputs_ok s inp \<Longrightarrow> inputs_ok (s @ new) inp"
  by (auto simp: inputs_ok_def get_orbits_append get_orbit_members_append
      get_observations_append split: option.splits)

lemma place_orbit_ids_reads: "reads_ids ids (place_orbit_ids s ids)"
  by (simp add: reads_ids_def place_orbit_ids_def ray_put_def Let_def get_put_orbit_ids)

lemma place_orbit_ids_store: "pl_store (place_orbit_ids s ids) = s @ [Some (ObjOrbitIds ids)]"
  by (simp add: place_orbit_ids_def ray_put_def Let_def)

lemma place_orbits_store: "\<exists>new. pl_store (place_orbits inp pl) = pl_store pl @ new"
  by (auto simp: place_orbits_def ray_put_def Let_def split: option.splits)

lemma place_orbit_members_store:
  "\<exists>new. pl_store (place_orbit_members inp pl) = pl_store pl @ new"
  by (auto simp: place_orbit_members_def ray_put_def Let_def split: option.splits)

lemma place_observations_store:
  "\<exists>new. pl_store (place_observations inp pl) = pl_store pl @ new"
  by (auto simp: place_observations_def ray_put_def Let_def split: option.splits)

lemma place_orbits_reads:
  "inputs_ok (pl_store pl) inp \<Longrightarrow> reads_orbits inp (place_orbits inp pl)"
  by (auto simp: inputs_ok_def reads_orbits_def place_orbits_def ray_put_def Let_def
      get_put_orbits split: option.splits)

lemma place_orbit_members_reads:
  "inputs_ok (pl_store pl) inp \<Longrightarrow> reads_orbit_members inp (place_orbit_members inp pl)"
  by (auto simp: inputs_ok_def reads_orbit_members_def place_orbit_members_def ray_put_def
      Let_def get_put_orbit_members split: option.splits)

lemma place_observations_reads:
  "inputs_ok (pl_store pl) inp \<Longrightarrow> reads_observations inp (place_observations inp pl)"
  by (auto simp: inputs_ok_def reads_observations_def place_observations_def ray_put_def
      Let_def get_put_observations split: option.splits)

lemma place_orbits_keeps:
  "reads_ids ids pl \<Longrightarrow> reads_ids ids (place_orbits inp pl)"
  by (auto simp: reads_ids_def place_orbits_def ray_put_def Let_def get_orbit_ids_append
      split: option.splits)

lemma place_orbit_members_keeps:
  "reads_ids ids pl \<Longrightarrow> reads_ids ids (place_orbit_members inp pl)"
  "reads_orbits inp' pl \<Longrightarrow> reads_orbits inp' (place_orbit_members inp pl)"
  by (auto simp: reads_ids_def reads_orbits_def place_orbit_members_def ray_put_def Let_def
      get_orbit_ids_append get_orbits_append split: option.splits)

lemma place_observations_keeps:
  "reads_ids ids pl \<Longrightarrow> reads_ids ids (place_observations inp pl)"
  "reads_orbits inp' pl \<Longrightarrow> reads_orbits inp' (place_observations inp pl)"
  "reads_orbit_members inp' pl \<Longrightarrow> reads_orbit_members inp' (place_observations inp pl)"
  by (auto simp: reads_ids_def reads_orbits_def reads_orbit_members_def
      place_observations_def ray_put_def Let_def get_orbit_ids_append get_orbits_append
      get_orbit_members_append split: option.splits)

lemma place_inputs_reads:
  assumes ok: "inputs_ok s inp"
  shows "reads_ids ids (place_inputs s ids inp) \<and> reads_orbits inp (place_inputs s ids inp) \<and>
         reads_orbit_members inp (place_inputs s ids inp) \<and>
         reads_observations inp (place_inputs s ids inp)"
proof -
  let ?p1 = "place_orbit_ids s ids"
  let ?p2 = "place_orbits inp ?p1"
  let ?p3 = "place_orbit_members inp ?p2"
  have ok1: "inputs_ok (pl_store ?p1) inp"
    using ok by (simp add: place_orbit_ids_store inputs_ok_append)
  have ok2: "inputs_ok (pl_store ?p2) inp"
    using ok1 place_orbits_store [of inp ?p1] by (auto simp: inputs_ok_append)
  have ok3: "inputs_ok (pl_store ?p3) inp"
    using ok2 place_orbit_members_store [of inp ?p2] by (auto simp: inputs_ok_append)
  show ?thesis
    unfolding place_inputs_def
    using place_orbit_ids_reads [of ids s] place_orbits_reads [OF ok1]
      place_orbit_members_reads [OF ok2] place_observations_reads [OF ok3]
    by (simp add: place_orbits_keeps place_orbit_members_keeps place_observations_keeps)
qed

lemma run_task_placed:
  assumes "inputs_ok s inp"
  shows "run_task env (pl_store (place_inputs s ids inp)) dir
           (chunk_task (place_inputs s ids inp) ix) =
         ipod_worker_remote env ids ix (in_orbits inp) (in_orbit_members inp)
           (in_observations inp) dir"
  using place_inputs_reads [OF assms, of ids]
  by (auto simp: run_task_def chunk_task_def reads_ids_def reads_orbits_def
      reads_orbit_members_def reads_observations_def split: option.splits)



section \<open>The dispatcher: lemmas\<close>

lemma drain_loop_Nil: "drain_loop sched get [] totals = ([], Inr totals)"
  by (subst drain_loop.simps) simp

lemma drain_loop_Inl:
  "futures \<noteq> [] \<Longrightarrow> get (fst (ray_wait sched futures)) = Inl e \<Longrightarrow>
   drain_loop sched get futures totals =
     ([Complete (fst (ray_wait sched futures)) (length futures)], Inl e)"
  by (subst drain_loop.simps) simp

lemma drain_loop_Inr:
  "futures \<noteq> [] \<Longrightarrow> get (fst (ray_wait sched futures)) = Inr b \<Longrightarrow>
   drain_loop sched get futures totals =
     (Complete (fst (ray_wait sched futures)) (length futures) #
        fst (drain_loop sched get (snd (ray_wait sched futures)) (merge_batch totals b)),
      snd (drain_loop sched get (snd (ray_wait sched futures)) (merge_batch totals b)))"
  by (subst drain_loop.simps) (simp add: Let_def)

lemma ray_wait_mset:
  "futures \<noteq> [] \<Longrightarrow>
   mset futures = add_mset (fst (ray_wait sched futures)) (mset (snd (ray_wait sched futures)))"
proof -
  assume ne: "futures \<noteq> []"
  define i where "i = sched futures mod length futures"
  have i: "i < length futures" using ne by (simp add: i_def)
  have "futures = take i futures @ futures ! i # drop (Suc i) futures"
    using i by (simp add: id_take_nth_drop)
  then have "mset futures = mset (take i futures @ futures ! i # drop (Suc i) futures)"
    by simp
  then show ?thesis
    by (simp add: ray_wait_def Let_def i_def)
qed

lemma ray_wait_length:
  "futures \<noteq> [] \<Longrightarrow> Suc (length (snd (ray_wait sched futures))) = length futures"
  using ray_wait_mset [of futures sched]
  by (metis size_add_mset size_mset)

lemma ray_wait_set:
  "futures \<noteq> [] \<Longrightarrow>
   set futures = insert (fst (ray_wait sched futures)) (set (snd (ray_wait sched futures)))"
  using ray_wait_mset [of futures sched]
  by (metis set_mset_add_mset_insert set_mset_mset)

lemma drain_loop_total:
  "\<forall>t \<in> set futures. get t = Inr (g t) \<Longrightarrow>
   \<exists>totals'. snd (drain_loop sched get futures totals) = Inr totals'"
proof (induction sched get futures totals rule: drain_loop.induct)
  case (1 sched get futures totals)
  show ?case
  proof (cases "futures = []")
    case True
    then show ?thesis by (simp add: drain_loop_Nil)
  next
    case False
    let ?w = "ray_wait sched futures"
    have fin: "get (fst ?w) = Inr (g (fst ?w))"
      using "1.prems" ray_wait_set [OF False, of sched] by auto
    have rest: "\<forall>t \<in> set (snd ?w). get t = Inr (g t)"
      using "1.prems" ray_wait_set [OF False, of sched] by auto
    from "1.IH" [OF False fin rest]
    obtain totals' where
      "snd (drain_loop sched get (snd ?w) (merge_batch totals (g (fst ?w)))) = Inr totals'"
      by blast
    then show ?thesis
      using drain_loop_Inr [of futures get sched "g (fst ?w)" totals] False fin by simp
  qed
qed

lemma drain_loop_rows:
  assumes p_merge: "\<And>a b. p (merge_batch a b) = p a @ p b"
  shows "\<forall>t \<in> set futures. get t = Inr (g t) \<Longrightarrow>
     snd (drain_loop sched get futures totals) = Inr totals' \<Longrightarrow>
     mset (p totals') = mset (p totals) + (\<Sum>t \<in># mset futures. mset (p (g t)))"
proof (induction sched get futures totals rule: drain_loop.induct)
  case (1 sched get futures totals)
  show ?case
  proof (cases "futures = []")
    case True
    then show ?thesis using "1.prems"(2) by (simp add: drain_loop_Nil)
  next
    case False
    let ?w = "ray_wait sched futures"
    have fin: "get (fst ?w) = Inr (g (fst ?w))"
      using "1.prems"(1) ray_wait_set [OF False, of sched] by auto
    have rest: "\<forall>t \<in> set (snd ?w). get t = Inr (g t)"
      using "1.prems"(1) ray_wait_set [OF False, of sched] by auto
    have res: "snd (drain_loop sched get (snd ?w) (merge_batch totals (g (fst ?w)))) = Inr totals'"
      using "1.prems"(2) drain_loop_Inr [of futures get sched "g (fst ?w)" totals] False fin
      by simp
    have "mset (p totals') =
          mset (p (merge_batch totals (g (fst ?w)))) + (\<Sum>t \<in># mset (snd ?w). mset (p (g t)))"
      using "1.IH" [OF False fin rest res] .
    also have "\<dots> = mset (p totals) + (\<Sum>t \<in># mset futures. mset (p (g t)))"
      by (simp add: ray_wait_mset [OF False, of sched] p_merge)
    finally show ?thesis .
  qed
qed

lemma drain_loop_failure:
  "snd (drain_loop sched get futures totals) = Inr totals' \<Longrightarrow> t \<in> set futures \<Longrightarrow>
   \<not> isl (get t)"
proof (induction sched get futures totals rule: drain_loop.induct)
  case (1 sched get futures totals)
  have ne: "futures \<noteq> []" using "1.prems"(2) by auto
  let ?w = "ray_wait sched futures"
  obtain b where fin: "get (fst ?w) = Inr b"
    using "1.prems"(1) drain_loop_Inl [of futures get sched _ totals] ne
    by (cases "get (fst ?w)") auto
  have res: "snd (drain_loop sched get (snd ?w) (merge_batch totals b)) = Inr totals'"
    using "1.prems"(1) drain_loop_Inr [of futures get sched b totals] ne fin by simp
  show ?case
  proof (cases "t = fst ?w")
    case True
    then show ?thesis using fin by simp
  next
    case False
    then have "t \<in> set (snd ?w)"
      using "1.prems"(2) ray_wait_set [OF ne, of sched] by auto
    then show ?thesis using "1.IH" [OF ne fin res] by simp
  qed
qed

lemma drain_loop_submitted:
  "submitted (fst (drain_loop sched get futures totals)) = []"
proof (induction sched get futures totals rule: drain_loop.induct)
  case (1 sched get futures totals)
  show ?case
  proof (cases "futures = []")
    case True
    then show ?thesis by (simp add: drain_loop_Nil)
  next
    case False
    show ?thesis
    proof (cases "get (fst (ray_wait sched futures))")
      case (Inl e)
      then show ?thesis using drain_loop_Inl [of futures get sched e totals] False by simp
    next
      case (Inr b)
      then show ?thesis
        using "1.IH" [OF False Inr] drain_loop_Inr [of futures get sched b totals] False
        by simp
    qed
  qed
qed

lemma drain_loop_bound:
  "ev \<in> set (fst (drain_loop sched get futures totals)) \<Longrightarrow>
   (\<exists>t n. ev = Complete t n \<and> n \<le> length futures)"
proof (induction sched get futures totals rule: drain_loop.induct)
  case (1 sched get futures totals)
  have ne: "futures \<noteq> []" using "1.prems" by (auto simp: drain_loop_Nil)
  show ?case
  proof (cases "get (fst (ray_wait sched futures))")
    case (Inl e)
    then show ?thesis
      using "1.prems" drain_loop_Inl [of futures get sched e totals] ne by simp
  next
    case (Inr b)
    have "ev = Complete (fst (ray_wait sched futures)) (length futures) \<or>
          ev \<in> set (fst (drain_loop sched get (snd (ray_wait sched futures)) (merge_batch totals b)))"
      using "1.prems" drain_loop_Inr [of futures get sched b totals] ne Inr by simp
    then show ?thesis
      using "1.IH" [OF ne Inr] ray_wait_length [OF ne, of sched] by fastforce
  qed
qed

lemma submit_loop_total:
  "\<forall>t \<in> set futures \<union> set ts. get t = Inr (g t) \<Longrightarrow>
   \<exists>ft. snd (submit_loop sched get w ts futures totals) = Inr ft"
proof (induction ts arbitrary: futures totals)
  case Nil
  then show ?case by simp
next
  case (Cons t ts)
  let ?f1 = "futures @ [t]"
  have ne: "?f1 \<noteq> []" by simp
  show ?case
  proof (cases "3 * w \<le> 2 * length ?f1")
    case True
    let ?w = "ray_wait sched ?f1"
    have all1: "\<forall>x \<in> set ?f1. get x = Inr (g x)" using Cons.prems by auto
    have fin: "get (fst ?w) = Inr (g (fst ?w))"
      using all1 ray_wait_set [OF ne, of sched] by blast
    have "\<forall>x \<in> set (snd ?w) \<union> set ts. get x = Inr (g x)"
      using all1 Cons.prems ray_wait_set [OF ne, of sched] by auto
    from Cons.IH [OF this]
    obtain ft where
      "snd (submit_loop sched get w ts (snd ?w) (merge_batch totals (g (fst ?w)))) = Inr ft"
      by blast
    then show ?thesis using True fin by (simp add: Let_def)
  next
    case False
    have "\<forall>x \<in> set ?f1 \<union> set ts. get x = Inr (g x)" using Cons.prems by auto
    from Cons.IH [OF this]
    obtain ft where "snd (submit_loop sched get w ts ?f1 totals) = Inr ft" by blast
    then show ?thesis using False by (simp add: Let_def)
  qed
qed

lemma submit_loop_rows:
  assumes p_merge: "\<And>a b. p (merge_batch a b) = p a @ p b"
  shows "\<forall>t \<in> set futures \<union> set ts. get t = Inr (g t) \<Longrightarrow>
     snd (submit_loop sched get w ts futures totals) = Inr (futures', totals') \<Longrightarrow>
     (\<forall>t \<in> set futures'. get t = Inr (g t)) \<and>
     mset (p totals') + (\<Sum>t \<in># mset futures'. mset (p (g t))) =
     mset (p totals) + (\<Sum>t \<in># mset futures + mset ts. mset (p (g t)))"
proof (induction ts arbitrary: futures totals)
  case Nil
  then show ?case by auto
next
  case (Cons t ts)
  let ?f1 = "futures @ [t]"
  have ne: "?f1 \<noteq> []" by simp
  show ?case
  proof (cases "3 * w \<le> 2 * length ?f1")
    case True
    let ?w = "ray_wait sched ?f1"
    have all1: "\<forall>x \<in> set ?f1. get x = Inr (g x)" using Cons.prems(1) by auto
    have fin: "get (fst ?w) = Inr (g (fst ?w))"
      using all1 ray_wait_set [OF ne, of sched] by blast
    have rest: "\<forall>x \<in> set (snd ?w) \<union> set ts. get x = Inr (g x)"
      using all1 Cons.prems(1) ray_wait_set [OF ne, of sched] by auto
    have res: "snd (submit_loop sched get w ts (snd ?w) (merge_batch totals (g (fst ?w)))) =
               Inr (futures', totals')"
      using Cons.prems(2) True fin by (simp add: Let_def)
    have ih: "(\<forall>t \<in> set futures'. get t = Inr (g t)) \<and>
          mset (p totals') + (\<Sum>t \<in># mset futures'. mset (p (g t))) =
          mset (p (merge_batch totals (g (fst ?w)))) +
          (\<Sum>t \<in># mset (snd ?w) + mset ts. mset (p (g t)))"
      using Cons.IH [OF rest res] .
    have "mset ?f1 = add_mset (fst ?w) (mset (snd ?w))"
      using ray_wait_mset [OF ne, of sched] .
    then have "mset futures + mset (t # ts) = add_mset (fst ?w) (mset (snd ?w) + mset ts)"
      by simp
    then have "(\<Sum>t \<in># mset futures + mset (t # ts). mset (p (g t))) =
               mset (p (g (fst ?w))) + (\<Sum>t \<in># mset (snd ?w) + mset ts. mset (p (g t)))"
      by (simp only: image_mset_add_mset sum_mset.add_mset)
    then show ?thesis using ih by (simp add: p_merge)
  next
    case False
    have rest: "\<forall>x \<in> set ?f1 \<union> set ts. get x = Inr (g x)" using Cons.prems(1) by auto
    have res: "snd (submit_loop sched get w ts ?f1 totals) = Inr (futures', totals')"
      using Cons.prems(2) False by (simp add: Let_def)
    show ?thesis using Cons.IH [OF rest res] by simp
  qed
qed

lemma submit_loop_failure:
  "snd (submit_loop sched get w ts futures totals) = Inr (futures', totals') \<Longrightarrow>
   t \<in> set futures \<union> set ts \<Longrightarrow> isl (get t) \<Longrightarrow> t \<in> set futures'"
proof (induction ts arbitrary: futures totals)
  case Nil
  then show ?case by auto
next
  case (Cons x ts)
  let ?f1 = "futures @ [x]"
  have ne: "?f1 \<noteq> []" by simp
  have mem: "t \<in> set ?f1 \<union> set ts" using Cons.prems(2) by auto
  show ?case
  proof (cases "3 * w \<le> 2 * length ?f1")
    case True
    let ?w = "ray_wait sched ?f1"
    obtain b where fin: "get (fst ?w) = Inr b"
      using Cons.prems(1) True by (auto simp: Let_def split: sum.splits)
    have res: "snd (submit_loop sched get w ts (snd ?w) (merge_batch totals b)) =
               Inr (futures', totals')"
      using Cons.prems(1) True fin by (simp add: Let_def)
    have "t \<noteq> fst ?w" using fin Cons.prems(3) by auto
    then have "t \<in> set (snd ?w) \<union> set ts"
      using mem ray_wait_set [OF ne, of sched] by auto
    then show ?thesis using Cons.IH [OF res _ Cons.prems(3)] by simp
  next
    case False
    have res: "snd (submit_loop sched get w ts ?f1 totals) = Inr (futures', totals')"
      using Cons.prems(1) False by (simp add: Let_def)
    show ?thesis using Cons.IH [OF res mem Cons.prems(3)] .
  qed
qed

lemma submit_loop_submitted_prefix:
  "prefix (submitted (fst (submit_loop sched get w ts futures totals))) ts"
  by (induction ts arbitrary: futures totals) (auto simp: Let_def split: sum.splits)

lemma submit_loop_submitted_all:
  "snd (submit_loop sched get w ts futures totals) = Inr ft \<Longrightarrow>
   submitted (fst (submit_loop sched get w ts futures totals)) = ts"
  by (induction ts arbitrary: futures totals) (auto simp: Let_def split: sum.splits if_splits)

lemma submit_loop_bound:
  "2 * length futures < 3 * w \<Longrightarrow>
   (\<forall>ev \<in> set (fst (submit_loop sched get w ts futures totals)). 2 * outstanding ev < 3 * w + 2) \<and>
   (\<forall>t n. Submit t n \<in> set (fst (submit_loop sched get w ts futures totals)) \<longrightarrow> 2 * n < 3 * w) \<and>
   (\<forall>futures' totals'. snd (submit_loop sched get w ts futures totals) = Inr (futures', totals')
       \<longrightarrow> 2 * length futures' < 3 * w)"
proof (induction ts arbitrary: futures totals)
  case Nil
  then show ?case by simp
next
  case (Cons x ts)
  let ?f1 = "futures @ [x]"
  have ne: "?f1 \<noteq> []" by simp
  show ?case
  proof (cases "3 * w \<le> 2 * length ?f1")
    case True
    let ?w = "ray_wait sched ?f1"
    have len: "2 * length (snd ?w) < 3 * w"
      using ray_wait_length [OF ne, of sched] Cons.prems by simp
    show ?thesis
    proof (cases "get (fst ?w)")
      case (Inl e)
      then show ?thesis using True Cons.prems by (simp add: Let_def)
    next
      case (Inr b)
      then show ?thesis using True Cons.prems Cons.IH [OF len, of "merge_batch totals b"]
        by (auto simp: Let_def)
    qed
  next
    case False
    then have len: "2 * length ?f1 < 3 * w" by simp
    show ?thesis using False Cons.prems Cons.IH [OF len, of totals]
      by (auto simp: Let_def)
  qed
qed

lemma submitted_append: "submitted (xs @ ys) = submitted xs @ submitted ys"
  by (induction xs rule: submitted.induct) auto

lemma dispatch_all_total:
  assumes "\<forall>t \<in> set tasks. get t = Inr (g t)"
  shows "\<exists>totals. snd (dispatch_all sched get w tasks) = Inr totals"
proof -
  obtain ft where ft: "snd (submit_loop sched get w tasks [] empty_batch) = Inr ft"
    using submit_loop_total [of "[]" tasks get g sched w empty_batch] assms by auto
  obtain futures' totals' where ft': "ft = (futures', totals')" by (cases ft)
  have "\<forall>t \<in> set futures'. get t = Inr (g t)"
    using submit_loop_rows [of ipod_orbits "[]" tasks get g sched w empty_batch futures' totals']
      assms ft ft'
    by (simp add: merge_batch_def concatenate_def defragment_def)
  then obtain totals where "snd (drain_loop sched get futures' totals') = Inr totals"
    using drain_loop_total by blast
  then show ?thesis using ft ft' by (simp add: dispatch_all_def Let_def)
qed

lemma dispatch_all_rows:
  assumes p_merge: "\<And>a b. p (merge_batch a b) = p a @ p b"
    and p_empty: "p empty_batch = []"
    and ok: "\<forall>t \<in> set tasks. get t = Inr (g t)"
    and res: "snd (dispatch_all sched get w tasks) = Inr totals"
  shows "mset (p totals) = (\<Sum>t \<in># mset tasks. mset (p (g t)))"
proof -
  obtain ft where ft: "snd (submit_loop sched get w tasks [] empty_batch) = Inr ft"
    using submit_loop_total [of "[]" tasks get g sched w empty_batch] ok by auto
  obtain futures' totals' where ft': "ft = (futures', totals')" by (cases ft)
  have sub: "(\<forall>t \<in> set futures'. get t = Inr (g t)) \<and>
     mset (p totals') + (\<Sum>t \<in># mset futures'. mset (p (g t))) =
     mset (p empty_batch) + (\<Sum>t \<in># mset [] + mset tasks. mset (p (g t)))"
    using submit_loop_rows [of p "[]" tasks get g sched w empty_batch futures' totals',
        OF p_merge] ok ft ft'
    by simp
  have "snd (drain_loop sched get futures' totals') = Inr totals"
    using res ft ft' by (simp add: dispatch_all_def Let_def)
  then have "mset (p totals) = mset (p totals') + (\<Sum>t \<in># mset futures'. mset (p (g t)))"
    using drain_loop_rows [of p futures' get g sched totals' totals, OF p_merge] sub by blast
  then show ?thesis using sub by (simp add: p_empty)
qed

lemma dispatch_all_failure:
  assumes "t \<in> set tasks" and "isl (get t)"
  shows "isl (snd (dispatch_all sched get w tasks))"
proof (cases "snd (submit_loop sched get w tasks [] empty_batch)")
  case (Inl e)
  then show ?thesis by (simp add: dispatch_all_def Let_def)
next
  case (Inr ft)
  obtain futures' totals' where ft': "ft = (futures', totals')" by (cases ft)
  have mem: "t \<in> set futures'"
    using submit_loop_failure [of sched get w tasks "[]" empty_batch futures' totals' t]
      Inr ft' assms by simp
  have "isl (snd (drain_loop sched get futures' totals'))"
  proof (cases "snd (drain_loop sched get futures' totals')")
    case (Inl e)
    then show ?thesis by simp
  next
    case (Inr totals)
    then show ?thesis using drain_loop_failure [OF Inr mem] assms(2) by simp
  qed
  then show ?thesis using Inr ft' by (simp add: dispatch_all_def Let_def)
qed

lemma dispatch_all_submitted_prefix:
  "prefix (submitted (fst (dispatch_all sched get w tasks))) tasks"
  using submit_loop_submitted_prefix [of sched get w tasks "[]" empty_batch]
  by (auto simp: dispatch_all_def Let_def submitted_append drain_loop_submitted
      split: sum.splits)

lemma dispatch_all_submitted_all:
  "snd (dispatch_all sched get w tasks) = Inr totals \<Longrightarrow>
   submitted (fst (dispatch_all sched get w tasks)) = tasks"
  using submit_loop_submitted_all [of sched get w tasks "[]" empty_batch]
  by (auto simp: dispatch_all_def Let_def submitted_append drain_loop_submitted
      split: sum.splits)

lemma dispatch_all_bound:
  assumes w: "0 < w"
  shows "(\<forall>ev \<in> set (fst (dispatch_all sched get w tasks)). 2 * outstanding ev < 3 * w + 2) \<and>
         (\<forall>t n. Submit t n \<in> set (fst (dispatch_all sched get w tasks)) \<longrightarrow> 2 * n < 3 * w)"
proof -
  have init: "2 * length ([] :: task list) < 3 * w" using w by simp
  note sub = submit_loop_bound [OF init, of sched get tasks empty_batch]
  show ?thesis
  proof (cases "snd (submit_loop sched get w tasks [] empty_batch)")
    case (Inl e)
    then show ?thesis using sub by (simp add: dispatch_all_def Let_def)
  next
    case (Inr ft)
    obtain futures' totals' where ft': "ft = (futures', totals')" by (cases ft)
    have len: "2 * length futures' < 3 * w" using sub Inr ft' by simp
    have dr: "2 * outstanding ev < 3 * w + 2 \<and> (\<forall>t n. ev \<noteq> Submit t n)"
      if "ev \<in> set (fst (drain_loop sched get futures' totals'))" for ev
      using drain_loop_bound [OF that] len by auto
    show ?thesis using sub dr Inr ft' by (auto simp: dispatch_all_def Let_def)
  qed
qed

section \<open>The entry point: lemmas\<close>

lemma entry_retrieve_error:
  "retrieve_inputs s orbits orbit_members observations = Inl e \<Longrightarrow>
   iterative_precovery_and_differential_correction env sched s orbits orbit_members observations
     dir c mp =
   \<lparr>result = Inl e, store = s, placed = [], freed = [], dispatch = [], local_workers = []\<rparr>"
  by (simp add: iterative_precovery_and_differential_correction_def)

lemma entry_empty:
  "retrieve_inputs s orbits orbit_members observations = Inr inp \<Longrightarrow> in_orbits inp = [] \<Longrightarrow>
   iterative_precovery_and_differential_correction env sched s orbits orbit_members observations
     dir c mp =
   \<lparr>result = Inr empty_batch, store = s, placed = [], freed = [], dispatch = [],
    local_workers = []\<rparr>"
  by (simp add: iterative_precovery_and_differential_correction_def)

lemma entry_distributed:
  "retrieve_inputs s orbits orbit_members observations = Inr inp \<Longrightarrow> in_orbits inp \<noteq> [] \<Longrightarrow>
   initialize_use_ray env (worker_count env mp) \<Longrightarrow>
   iterative_precovery_and_differential_correction env sched s orbits orbit_members observations
     dir c mp =
   distributed_path env sched s inp (map fo_orbit_id (in_orbits inp)) dir c (worker_count env mp)"
  by (simp add: iterative_precovery_and_differential_correction_def Let_def)

lemma entry_sequential:
  "retrieve_inputs s orbits orbit_members observations = Inr inp \<Longrightarrow> in_orbits inp \<noteq> [] \<Longrightarrow>
   \<not> initialize_use_ray env (worker_count env mp) \<Longrightarrow>
   iterative_precovery_and_differential_correction env sched s orbits orbit_members observations
     dir c mp =
   sequential_path env s inp (map fo_orbit_id (in_orbits inp)) dir c"
  by (simp add: iterative_precovery_and_differential_correction_def Let_def)

lemma distributed_path_zero:
  "distributed_path env sched s inp ids dir c 0 =
   \<lparr>result = Inl ZeroDivisionError, store = pl_store (place_inputs s ids inp),
    placed = puts (place_inputs s ids inp), freed = [], dispatch = [], local_workers = []\<rparr>"
  by (simp add: distributed_path_def effective_chunk_size_def Let_def)

lemma distributed_path_dispatch:
  "0 < w \<Longrightarrow>
   dispatch (distributed_path env sched s inp ids dir c w) =
     fst (dispatch_all sched (task_result env s inp ids dir) w (planned_tasks s inp ids c w))"
  by (simp add: distributed_path_def effective_chunk_size_def Let_def planned_tasks_def
      task_result_def split: sum.splits)

lemma distributed_path_result:
  "0 < w \<Longrightarrow>
   result (distributed_path env sched s inp ids dir c w) =
     snd (dispatch_all sched (task_result env s inp ids dir) w (planned_tasks s inp ids c w))"
  by (simp add: distributed_path_def effective_chunk_size_def Let_def planned_tasks_def
      task_result_def split: sum.splits)

lemma distributed_path_placed:
  "placed (distributed_path env sched s inp ids dir c w) = puts (place_inputs s ids inp)"
  by (simp add: distributed_path_def effective_chunk_size_def Let_def split: sum.splits)

lemma distributed_path_freed:
  "freed (distributed_path env sched s inp ids dir c w) =
     (if isl (result (distributed_path env sched s inp ids dir c w)) then []
      else refs_to_free (place_inputs s ids inp))"
  by (simp add: distributed_path_def effective_chunk_size_def Let_def split: sum.splits)

lemma ray_free_Nil: "ray_free [] s = s"
  by (simp add: ray_free_def)

lemma distributed_path_store:
  "store (distributed_path env sched s inp ids dir c w) =
     ray_free (freed (distributed_path env sched s inp ids dir c w))
       (pl_store (place_inputs s ids inp))"
  by (simp add: distributed_path_def effective_chunk_size_def Let_def ray_free_Nil
      split: sum.splits)

lemma distributed_path_local: "local_workers (distributed_path env sched s inp ids dir c w) = []"
  by (simp add: distributed_path_def effective_chunk_size_def Let_def split: sum.splits)

lemma task_result_planned:
  "inputs_ok s inp \<Longrightarrow>
   task_result env s inp ids dir (chunk_task (place_inputs s ids inp) ix) =
     chunk_result env inp dir (slice ids ix)"
  by (simp add: task_result_def run_task_placed ipod_worker_remote_result chunk_result_def)

lemma ipod_worker_chunk_result:
  "snd (ipod_worker env chunk (in_orbits inp) (in_orbit_members inp) (in_observations inp)
          (Inl dir)) = chunk_result env inp dir chunk"
  by (simp add: ipod_worker_result chunk_result_def)

lemma sequential_loop_ok:
  "\<forall>chunk \<in> set chunks. chunk_result env inp dir chunk = Inr (gw chunk) \<Longrightarrow>
   snd (sequential_loop env inp dir chunks totals) = Inr (foldl merge_batch totals (map gw chunks))"
  by (induction chunks arbitrary: totals) (simp_all add: Let_def ipod_worker_chunk_result)

lemma sequential_loop_failure:
  "chunk \<in> set chunks \<Longrightarrow> isl (chunk_result env inp dir chunk) \<Longrightarrow>
   isl (snd (sequential_loop env inp dir chunks totals))"
  by (induction chunks arbitrary: totals)
     (auto simp: Let_def ipod_worker_chunk_result split: sum.splits)

lemma sequential_loop_prefix:
  "prefix (map fst (fst (sequential_loop env inp dir chunks totals))) chunks"
  by (induction chunks arbitrary: totals) (auto simp: Let_def split: sum.splits)

lemma sequential_loop_all:
  "snd (sequential_loop env inp dir chunks totals) = Inr b \<Longrightarrow>
   map fst (fst (sequential_loop env inp dir chunks totals)) = chunks"
  by (induction chunks arbitrary: totals) (auto simp: Let_def split: sum.splits)

lemma foldl_merge_rows:
  assumes p_merge: "\<And>a b. p (merge_batch a b) = p a @ p b"
  shows "p (foldl merge_batch acc bs) = p acc @ concat (map p bs)"
  by (induction bs arbitrary: acc) (simp_all add: p_merge)

lemma concat_map_chunks:
  "concat (map (\<lambda>x. concat (map F (h x))) xs) = concat (map F (concat (map h xs)))"
  by (induction xs) simp_all

lemma sum_mset_concat: "(\<Sum>x \<in># mset xs. mset (F x)) = mset (concat (map F xs))"
  by (induction xs) simp_all

lemma worker_loop_failure:
  "oid \<in> set ids \<Longrightarrow>
   isl (process_orbit env orbits orbit_members observations db oid) \<Longrightarrow>
   isl (snd (worker_loop env orbits orbit_members observations db ids acc))"
  by (induction ids arbitrary: acc)
     (auto simp: process_orbit_def Let_def split: sum.splits)

lemma chunk_result_ok:
  "\<forall>oid \<in> set chunk. process_orbit env (in_orbits inp) (in_orbit_members inp)
       (in_observations inp) (PrecoveryDatabase dir) oid = Inr (gi oid) \<Longrightarrow>
   chunk_result env inp dir chunk = Inr (foldl merge_batch empty_batch (map gi chunk))"
  using worker_loop_ok [of chunk env "in_orbits inp" "in_orbit_members inp" "in_observations inp"
      "PrecoveryDatabase dir" gi empty_batch]
  by (simp add: chunk_result_def)

lemma chunk_result_failure:
  "oid \<in> set chunk \<Longrightarrow>
   isl (process_orbit env (in_orbits inp) (in_orbit_members inp) (in_observations inp)
          (PrecoveryDatabase dir) oid) \<Longrightarrow>
   isl (chunk_result env inp dir chunk)"
  by (simp add: chunk_result_def worker_loop_failure)

lemma set_slice: "set (slice xs ij) \<subseteq> set xs"
  unfolding slice_def by (meson set_take_subset set_drop_subset subset_trans)

lemma set_iterate_chunks: "chunk \<in> set (iterate_chunks xs c) \<Longrightarrow> set chunk \<subseteq> set xs"
  by (auto simp: iterate_chunks_def dest: set_slice [THEN subsetD])

lemma in_some_chunk:
  assumes "0 < c" and "x \<in> set xs"
  shows "\<exists>ij \<in> set (iterate_chunk_indices xs c). x \<in> set (slice xs ij)"
proof -
  have "x \<in> set (concat (map (slice xs) (iterate_chunk_indices xs c)))"
    using assms concat_iterate_chunks [of c xs] by (simp add: iterate_chunks_def)
  then show ?thesis by auto
qed

lemma effective_positive:
  fixes n w c :: nat
  shows "0 < w \<Longrightarrow> 0 < c \<Longrightarrow> 0 < n \<Longrightarrow> 0 < min ((n + w - 1) div w) c"
proof -
  assume w: "0 < w" and c: "0 < c" and n: "0 < n"
  have "w \<le> n + w - 1" using n by simp
  then have "1 \<le> (n + w - 1) div w" using w by (simp add: div_greater_zero_iff Suc_le_eq)
  then show ?thesis using c by simp
qed

lemma planned_tasks_results:
  assumes ok: "inputs_ok s inp"
    and all: "\<forall>oid \<in> set ids. process_orbit env (in_orbits inp) (in_orbit_members inp)
       (in_observations inp) (PrecoveryDatabase dir) oid = Inr (gi oid)"
  shows "\<forall>t \<in> set (planned_tasks s inp ids c w).
           task_result env s inp ids dir t =
             Inr (foldl merge_batch empty_batch (map gi (slice ids (t_indices t))))"
proof
  fix t assume "t \<in> set (planned_tasks s inp ids c w)"
  then obtain ix where t: "t = chunk_task (place_inputs s ids inp) ix"
    by (auto simp: planned_tasks_def)
  have ix: "t_indices t = ix" by (simp add: t chunk_task_def)
  have "\<forall>oid \<in> set (slice ids ix). process_orbit env (in_orbits inp) (in_orbit_members inp)
       (in_observations inp) (PrecoveryDatabase dir) oid = Inr (gi oid)"
    using all set_slice [of ids ix] by auto
  then show "task_result env s inp ids dir t =
             Inr (foldl merge_batch empty_batch (map gi (slice ids (t_indices t))))"
    by (simp add: t task_result_planned [OF ok] chunk_result_ok ix [unfolded t])
qed

lemma distributed_path_total:
  assumes ok: "inputs_ok s inp"
    and all: "\<forall>oid \<in> set ids. process_orbit env (in_orbits inp) (in_orbit_members inp)
       (in_observations inp) (PrecoveryDatabase dir) oid = Inr (gi oid)"
    and w: "0 < w"
  shows "\<exists>totals. result (distributed_path env sched s inp ids dir c w) = Inr totals"
  using dispatch_all_total [OF planned_tasks_results [OF ok all], where sched = sched and w = w]
  by (simp add: distributed_path_result [OF w])

lemma distributed_path_rows:
  assumes p_merge: "\<And>a b. p (merge_batch a b) = p a @ p b"
    and p_empty: "p empty_batch = []"
    and ok: "inputs_ok s inp"
    and all: "\<forall>oid \<in> set ids. process_orbit env (in_orbits inp) (in_orbit_members inp)
       (in_observations inp) (PrecoveryDatabase dir) oid = Inr (gi oid)"
    and w: "0 < w" and c: "0 < c" and ne: "ids \<noteq> []"
    and res: "result (distributed_path env sched s inp ids dir c w) = Inr totals"
  shows "mset (p totals) = mset (concat (map (p \<circ> gi) ids))"
proof -
  let ?c = "min ((length ids + w - 1) div w) c"
  let ?ixs = "iterate_chunk_indices ids ?c"
  let ?g = "\<lambda>t. foldl merge_batch empty_batch (map gi (slice ids (t_indices t)))"
  have pos: "0 < ?c" using effective_positive [OF w c, of "length ids"] ne by simp
  have res': "snd (dispatch_all sched (task_result env s inp ids dir) w
                 (planned_tasks s inp ids c w)) = Inr totals"
    using res by (simp add: distributed_path_result [OF w])
  have "mset (p totals) = (\<Sum>t \<in># mset (planned_tasks s inp ids c w). mset (p (?g t)))"
    using dispatch_all_rows [of p, OF p_merge p_empty planned_tasks_results [OF ok all] res'] .
  also have "\<dots> = (\<Sum>ix \<in># mset ?ixs. mset (concat (map (p \<circ> gi) (slice ids ix))))"
    by (simp add: planned_tasks_def chunk_task_def image_mset.compositionality comp_def
        foldl_merge_rows [of p, OF p_merge] p_empty flip: mset_map)
  also have "\<dots> = mset (concat (map (\<lambda>ix. concat (map (p \<circ> gi) (slice ids ix))) ?ixs))"
    by (rule sum_mset_concat)
  also have "\<dots> = mset (concat (map (p \<circ> gi) (concat (map (slice ids) ?ixs))))"
    by (simp only: concat_map_chunks)
  also have "\<dots> = mset (concat (map (p \<circ> gi) ids))"
    using concat_iterate_chunks [OF pos, of ids] by (simp add: iterate_chunks_def)
  finally show ?thesis .
qed



lemma merge_batch_rows:
  "ipod_orbits (merge_batch a b) = ipod_orbits a @ ipod_orbits b"
  "ipod_orbits_members (merge_batch a b) = ipod_orbits_members a @ ipod_orbits_members b"
  "ipod_precovery_candidates (merge_batch a b) =
     ipod_precovery_candidates a @ ipod_precovery_candidates b"
  "ipod_summary (merge_batch a b) = ipod_summary a @ ipod_summary b"
  by (simp_all add: merge_batch_def concatenate_def defragment_def)

lemma empty_batch_rows:
  "ipod_orbits empty_batch = []" "ipod_orbits_members empty_batch = []"
  "ipod_precovery_candidates empty_batch = []" "ipod_summary empty_batch = []"
  by (simp_all add: empty_batch_def)

lemma sequential_path_rows:
  assumes p_merge: "\<And>a b. p (merge_batch a b) = p a @ p b"
    and p_empty: "p empty_batch = []"
    and all: "\<forall>oid \<in> set ids. process_orbit env (in_orbits inp) (in_orbit_members inp)
       (in_observations inp) (PrecoveryDatabase dir) oid = Inr (gi oid)"
    and c: "0 < c"
  shows "\<exists>totals. result (sequential_path env s inp ids dir c) = Inr totals \<and>
           p totals = concat (map (p \<circ> gi) ids)"
proof -
  let ?gw = "\<lambda>chunk. foldl merge_batch empty_batch (map gi chunk)"
  have "\<forall>chunk \<in> set (iterate_chunks ids c). chunk_result env inp dir chunk = Inr (?gw chunk)"
    using all set_iterate_chunks [of _ ids c] by (auto intro!: chunk_result_ok)
  then have res: "result (sequential_path env s inp ids dir c) =
              Inr (foldl merge_batch empty_batch (map ?gw (iterate_chunks ids c)))"
    by (simp add: sequential_path_def Let_def sequential_loop_ok)
  have "p (foldl merge_batch empty_batch (map ?gw (iterate_chunks ids c))) =
        concat (map (\<lambda>chunk. concat (map (p \<circ> gi) (id chunk))) (iterate_chunks ids c))"
    by (simp add: foldl_merge_rows [of p, OF p_merge] p_empty comp_def)
  also have "\<dots> = concat (map (p \<circ> gi) (concat (map id (iterate_chunks ids c))))"
    by (simp only: concat_map_chunks)
  also have "\<dots> = concat (map (p \<circ> gi) ids)"
    by (simp add: concat_iterate_chunks [OF c])
  finally show ?thesis using res by simp
qed

lemma not_isl_Inr: "\<not> isl x \<Longrightarrow> x = Inr (projr x)"
  by (cases x) simp_all

lemma distributed_path_failure:
  assumes ok: "inputs_ok s inp"
    and mem: "oid \<in> set ids"
    and fail: "isl (process_orbit env (in_orbits inp) (in_orbit_members inp)
                 (in_observations inp) (PrecoveryDatabase dir) oid)"
    and c: "0 < c"
  shows "isl (result (distributed_path env sched s inp ids dir c w))"
proof (cases "w = 0")
  case True
  then show ?thesis by (simp add: distributed_path_zero)
next
  case False
  then have w: "0 < w" by simp
  have ne: "0 < length ids" using mem by (cases ids) auto
  let ?c = "min ((length ids + w - 1) div w) c"
  have pos: "0 < ?c" using effective_positive [OF w c ne] .
  obtain ix where ix: "ix \<in> set (iterate_chunk_indices ids ?c)" "oid \<in> set (slice ids ix)"
    using in_some_chunk [OF pos mem] by blast
  let ?t = "chunk_task (place_inputs s ids inp) ix"
  have t: "?t \<in> set (planned_tasks s inp ids c w)"
    using ix(1) by (simp add: planned_tasks_def)
  have "isl (task_result env s inp ids dir ?t)"
    using chunk_result_failure [OF ix(2) fail] by (simp add: task_result_planned [OF ok])
  then show ?thesis
    using dispatch_all_failure [OF t] by (simp add: distributed_path_result [OF w])
qed

lemma sequential_path_failure:
  assumes mem: "oid \<in> set ids"
    and fail: "isl (process_orbit env (in_orbits inp) (in_orbit_members inp)
                 (in_observations inp) (PrecoveryDatabase dir) oid)"
    and c: "0 < c"
  shows "isl (result (sequential_path env s inp ids dir c))"
proof -
  have "oid \<in> set (concat (iterate_chunks ids c))"
    using mem by (simp add: concat_iterate_chunks [OF c])
  then obtain chunk where chunk: "chunk \<in> set (iterate_chunks ids c)" "oid \<in> set chunk"
    by auto
  show ?thesis
    using sequential_loop_failure [OF chunk(1) chunk_result_failure [OF chunk(2) fail]]
    by (simp add: sequential_path_def Let_def)
qed

lemma entry_failure:
  assumes inp: "retrieve_inputs s orbits orbit_members observations = Inr inp"
    and mem: "oid \<in> fo_orbit_id ` set (in_orbits inp)"
    and fail: "isl (process_orbit env (in_orbits inp) (in_orbit_members inp)
                 (in_observations inp) (PrecoveryDatabase dir) oid)"
    and c: "0 < c"
  shows "isl (result (iterative_precovery_and_differential_correction env sched s orbits
                        orbit_members observations dir c mp))"
proof -
  have ne: "in_orbits inp \<noteq> []" using mem by auto
  have mem': "oid \<in> set (map fo_orbit_id (in_orbits inp))" using mem by simp
  show ?thesis
  proof (cases "initialize_use_ray env (worker_count env mp)")
    case True
    show ?thesis
      using distributed_path_failure [OF retrieve_inputs_ok [OF inp] mem' fail c]
      by (simp add: entry_distributed [OF inp ne True])
  next
    case False
    show ?thesis
      using sequential_path_failure [OF mem' fail c]
      by (simp add: entry_sequential [OF inp ne False])
  qed
qed

lemma select_Inr_mem: "select orbits oid = Inr orbit \<Longrightarrow> oid \<in> fo_orbit_id ` set orbits"
proof -
  assume "select orbits oid = Inr orbit"
  then have "filter (\<lambda>r. fo_orbit_id r = oid) orbits \<noteq> []"
    by (auto simp: select_def split: list.splits)
  then obtain r where "r \<in> set orbits" "fo_orbit_id r = oid"
    by (auto simp: filter_empty_conv)
  then show ?thesis by auto
qed

lemma worker_loop_refinement_failure:
  assumes pre_ok: "\<forall>x \<in> set pre. process_orbit env orbits om obs db x = Inr (g x)"
    and sel: "select orbits oid = Inr orbit"
    and fail: "ipod env orbit (orbit_observations_for env om obs oid) db = Inl e"
  shows "worker_loop env orbits om obs db (pre @ oid # post) acc =
           (map (\<lambda>x. IpodCall x (orbit_observations_for env om obs x)) pre @
              [IpodCall oid (orbit_observations_for env om obs oid), LogError oid e],
            Inl e)"
  using sel fail by (simp add: worker_loop_append [OF pre_ok] Let_def)

lemma retrieve_demo_inputs:
  "retrieve_inputs s (Value orbits) None None = Inr (demo_inputs orbits)"
  by (simp add: retrieve_inputs_def demo_inputs_def)

lemma sequential_path_dispatch: "dispatch (sequential_path env s inp ids dir c) = []"
  by (simp add: sequential_path_def Let_def)

lemma sequential_path_local:
  "local_workers (sequential_path env s inp ids dir c) =
     fst (sequential_loop env inp dir (iterate_chunks ids c) empty_batch)"
  "result (sequential_path env s inp ids dir c) =
     snd (sequential_loop env inp dir (iterate_chunks ids c) empty_batch)"
  by (simp_all add: sequential_path_def Let_def)

lemma entry_dispatch_cases:
  "dispatch (iterative_precovery_and_differential_correction env sched s orbits orbit_members
               observations dir c mp) = [] \<or>
   (0 < worker_count env mp \<and>
    (\<exists>get tasks.
       dispatch (iterative_precovery_and_differential_correction env sched s orbits
                   orbit_members observations dir c mp) =
         fst (dispatch_all sched get (worker_count env mp) tasks)))"
proof (cases "retrieve_inputs s orbits orbit_members observations")
  case (Inl e)
  then show ?thesis by (simp add: entry_retrieve_error)
next
  case (Inr inp)
  show ?thesis
  proof (cases "in_orbits inp = []")
    case True
    then show ?thesis by (simp add: entry_empty [OF Inr])
  next
    case False
    show ?thesis
    proof (cases "initialize_use_ray env (worker_count env mp)")
      case use_ray: True
      show ?thesis
      proof (cases "worker_count env mp = 0")
        case True
        then show ?thesis
          by (simp add: entry_distributed [OF Inr False use_ray] distributed_path_zero)
      next
        case nz: False
        then show ?thesis
          using distributed_path_dispatch [of "worker_count env mp" env sched s inp]
          by (auto simp: entry_distributed [OF Inr False use_ray])
      qed
    next
      case no_ray: False
      then show ?thesis
        by (simp add: entry_sequential [OF Inr False no_ray] sequential_path_dispatch)
    qed
  qed
qed

lemma within_ceiling:
  fixes k w :: nat
  assumes "2 * k < 3 * w + 2"
  shows "int k \<le> \<lceil>1.5 * real w\<rceil>"
proof -
  have "real (2 * k) < real (3 * w + 2)" using assms by (simp only: of_nat_less_iff)
  then have "real_of_int (int k) - 1 < 1.5 * real w" by simp
  then show ?thesis by (simp only: le_ceiling_iff)
qed

lemma below_threshold:
  fixes n w :: nat
  assumes "2 * n < 3 * w"
  shows "real n < 1.5 * real w"
proof -
  have "real (2 * n) < real (3 * w)" using assms by (simp only: of_nat_less_iff)
  then show ?thesis by simp
qed

lemma planned_tasks_indices:
  "0 < w \<Longrightarrow>
   map t_indices (planned_tasks s inp ids c w) =
     iterate_chunk_indices ids (min (nat \<lceil>real (length ids) / real w\<rceil>) c)"
  by (simp add: planned_tasks_def chunk_task_def comp_def ceil_div)

lemma iterate_chunks_one_worker:
  assumes c: "0 < c"
  shows "iterate_chunks xs c = iterate_chunks xs (min (nat \<lceil>real (length xs) / real (1::nat)\<rceil>) c)"
proof (cases "length xs \<le> c")
  case True
  show ?thesis
  proof (cases "xs = []")
    case Nil: True
    then show ?thesis
      by (simp add: iterate_chunks_def iterate_chunk_indices_def
          iterate_chunk_indices_from.simps [of 0 0])
  next
    case False
    then have "0 < length xs" by simp
    then show ?thesis using True c
      by (simp add: iterate_chunks_def iterate_chunk_indices_def
          iterate_chunk_indices_from_large min_def)
  qed
next
  case False
  then show ?thesis by (simp add: min_def)
qed

section \<open>Placement and release: lemmas\<close>

lemma puts_place_inputs:
  "map snd (puts (place_inputs s ids inp)) =
     ObjOrbitIds ids #
     (case in_orbits_ref inp of None \<Rightarrow> [ObjOrbits (in_orbits inp)] | Some r \<Rightarrow> []) @
     (case in_orbit_members_ref inp of
        None \<Rightarrow> (case in_orbit_members inp of None \<Rightarrow> [] | Some t \<Rightarrow> [ObjOrbitMembers t])
      | Some r \<Rightarrow> []) @
     (case in_observations_ref inp of
        None \<Rightarrow> (case in_observations inp of None \<Rightarrow> [] | Some t \<Rightarrow> [ObjObservations t])
      | Some r \<Rightarrow> [])"
  by (simp add: place_inputs_def place_orbit_ids_def place_orbits_def place_orbit_members_def
      place_observations_def ray_put_def Let_def split: option.splits)

lemma place_inputs_refs:
  "in_orbits_ref inp = Some r \<Longrightarrow> orbits_ref (place_inputs s ids inp) = r"
  "in_orbit_members_ref inp = Some r \<Longrightarrow> orbit_members_ref (place_inputs s ids inp) = Some r"
  "in_observations_ref inp = Some r \<Longrightarrow> observations_ref (place_inputs s ids inp) = Some r"
  by (simp_all add: place_inputs_def place_orbit_ids_def place_orbits_def
      place_orbit_members_def place_observations_def ray_put_def Let_def split: option.splits)

lemma retrieve_inputs_refs:
  assumes "retrieve_inputs s orbits orbit_members observations = Inr inp"
  shows "orbits = Reference r \<Longrightarrow> in_orbits_ref inp = Some r"
    and "orbit_members = Some (Reference r) \<Longrightarrow> in_orbit_members_ref inp = Some r"
    and "observations = Some (Reference r) \<Longrightarrow> in_observations_ref inp = Some r"
  using assms
  by (auto simp: retrieve_inputs_def split: input.splits option.splits sum.splits)

lemma length_filter_snd:
  "length (filter (P \<circ> snd) xs) = length (filter P (map snd xs))"
  by (induction xs) simp_all

lemma placed_at_most_once:
  "length (filter (is_ObjOrbits \<circ> snd) (puts (place_inputs s ids inp))) \<le> 1"
  "length (filter (is_ObjOrbitMembers \<circ> snd) (puts (place_inputs s ids inp))) \<le> 1"
  "length (filter (is_ObjObservations \<circ> snd) (puts (place_inputs s ids inp))) \<le> 1"
  unfolding length_filter_snd
  by (simp_all add: puts_place_inputs split: option.splits)

lemma placed_none:
  "in_orbits_ref inp = Some r \<Longrightarrow>
     filter (is_ObjOrbits \<circ> snd) (puts (place_inputs s ids inp)) = []"
  "in_orbit_members_ref inp = Some r \<Longrightarrow>
     filter (is_ObjOrbitMembers \<circ> snd) (puts (place_inputs s ids inp)) = []"
  "in_observations_ref inp = Some r \<Longrightarrow>
     filter (is_ObjObservations \<circ> snd) (puts (place_inputs s ids inp)) = []"
  unfolding length_0_conv [symmetric] length_filter_snd
  by (simp_all add: puts_place_inputs split: option.splits)

lemma entry_placed_cases:
  "placed (iterative_precovery_and_differential_correction env sched s orbits orbit_members
             observations dir c mp) = [] \<and>
   dispatch (iterative_precovery_and_differential_correction env sched s orbits orbit_members
             observations dir c mp) = [] \<or>
   (\<exists>inp ids. retrieve_inputs s orbits orbit_members observations = Inr inp \<and>
      placed (iterative_precovery_and_differential_correction env sched s orbits orbit_members
                observations dir c mp) = puts (place_inputs s ids inp) \<and>
      set (submitted (dispatch (iterative_precovery_and_differential_correction env sched s
                orbits orbit_members observations dir c mp)))
        \<subseteq> range (chunk_task (place_inputs s ids inp)))"
proof (cases "retrieve_inputs s orbits orbit_members observations")
  case (Inl e)
  then show ?thesis by (simp add: entry_retrieve_error)
next
  case (Inr inp)
  show ?thesis
  proof (cases "in_orbits inp = []")
    case True
    then show ?thesis by (simp add: entry_empty [OF Inr])
  next
    case False
    show ?thesis
    proof (cases "initialize_use_ray env (worker_count env mp)")
      case use_ray: True
      let ?ids = "map fo_orbit_id (in_orbits inp)"
      let ?w = "worker_count env mp"
      let ?r = "distributed_path env sched s inp ?ids dir c ?w"
      have "set (submitted (dispatch ?r)) \<subseteq> range (chunk_task (place_inputs s ?ids inp))"
      proof (cases "?w = 0")
        case True
        then show ?thesis by (simp add: distributed_path_zero)
      next
        case nz: False
        then have pos: "0 < ?w" by simp
        have "set (submitted (dispatch ?r)) \<subseteq> set (planned_tasks s inp ?ids c ?w)"
          using dispatch_all_submitted_prefix
            [of sched "task_result env s inp ?ids dir" ?w "planned_tasks s inp ?ids c ?w"]
          by (simp add: distributed_path_dispatch [OF pos] set_mono_prefix)
        then show ?thesis by (auto simp: planned_tasks_def)
      qed
      then show ?thesis
        using Inr
        by (simp add: entry_distributed [OF Inr False use_ray] distributed_path_placed) blast
    next
      case no_ray: False
      then show ?thesis
        by (simp add: entry_sequential [OF Inr False no_ray] sequential_path_def Let_def)
    qed
  qed
qed

lemma sequential_loop_refs:
  "sequential_loop env (inp\<lparr>in_orbits_ref := x\<rparr>) dir chunks totals =
     sequential_loop env inp dir chunks totals"
  "sequential_loop env (inp\<lparr>in_orbit_members_ref := x\<rparr>) dir chunks totals =
     sequential_loop env inp dir chunks totals"
  "sequential_loop env (inp\<lparr>in_observations_ref := x\<rparr>) dir chunks totals =
     sequential_loop env inp dir chunks totals"
  by (induction chunks arbitrary: totals) (simp_all add: Let_def split: sum.splits)

lemma retrieve_inputs_Reference:
  "get_orbits s ref = Inr tbl \<Longrightarrow>
   retrieve_inputs s (Reference ref) orbit_members observations =
     map_sum id (\<lambda>inp. inp\<lparr>in_orbits_ref := Some ref\<rparr>)
       (retrieve_inputs s (Value tbl) orbit_members observations)"
  "get_orbit_members s ref = Inr mtbl \<Longrightarrow>
   retrieve_inputs s orbits (Some (Reference ref)) observations =
     map_sum id (\<lambda>inp. inp\<lparr>in_orbit_members_ref := Some ref\<rparr>)
       (retrieve_inputs s orbits (Some (Value mtbl)) observations)"
  "get_observations s ref = Inr otbl \<Longrightarrow>
   retrieve_inputs s orbits orbit_members (Some (Reference ref)) =
     map_sum id (\<lambda>inp. inp\<lparr>in_observations_ref := Some ref\<rparr>)
       (retrieve_inputs s orbits orbit_members (Some (Value otbl)))"
  by (auto simp: retrieve_inputs_def split: input.splits option.splits sum.splits)

lemma entry_local_only:
  assumes "\<not> initialize_use_ray env (worker_count env mp)"
  shows "iterative_precovery_and_differential_correction env sched s orbits orbit_members
           observations dir c mp =
         (case retrieve_inputs s orbits orbit_members observations of
            Inl e \<Rightarrow> \<lparr>result = Inl e, store = s, placed = [], freed = [], dispatch = [],
                      local_workers = []\<rparr>
          | Inr inp \<Rightarrow>
              if in_orbits inp = [] then
                \<lparr>result = Inr empty_batch, store = s, placed = [], freed = [], dispatch = [],
                 local_workers = []\<rparr>
              else
                \<lparr>result = snd (sequential_loop env inp dir
                                  (iterate_chunks (map fo_orbit_id (in_orbits inp)) c)
                                  empty_batch),
                 store = s, placed = [], freed = [], dispatch = [],
                 local_workers = fst (sequential_loop env inp dir
                                  (iterate_chunks (map fo_orbit_id (in_orbits inp)) c)
                                  empty_batch)\<rparr>)"
  using assms
  by (simp add: iterative_precovery_and_differential_correction_def Let_def
      sequential_path_def split: sum.splits)

lemma entry_read_back:
  assumes no_ray: "\<not> initialize_use_ray env (worker_count env mp)"
  shows "get_orbits s ref = Inr tbl \<Longrightarrow>
         iterative_precovery_and_differential_correction env sched s (Reference ref)
           orbit_members observations dir c mp =
         iterative_precovery_and_differential_correction env sched s (Value tbl)
           orbit_members observations dir c mp"
    and "get_orbit_members s ref = Inr mtbl \<Longrightarrow>
         iterative_precovery_and_differential_correction env sched s orbits
           (Some (Reference ref)) observations dir c mp =
         iterative_precovery_and_differential_correction env sched s orbits
           (Some (Value mtbl)) observations dir c mp"
    and "get_observations s ref = Inr otbl \<Longrightarrow>
         iterative_precovery_and_differential_correction env sched s orbits
           orbit_members (Some (Reference ref)) dir c mp =
         iterative_precovery_and_differential_correction env sched s orbits
           orbit_members (Some (Value otbl)) dir c mp"
  by (simp_all add: entry_local_only [OF no_ray] retrieve_inputs_Reference
      sequential_loop_refs split: sum.splits)

lemma ray_get_update:
  "r \<noteq> ref \<Longrightarrow> ray_get (st[r := None]) ref = ray_get st ref"
  by (simp add: ray_get_def)

lemma ray_get_free:
  "ref \<notin> set refs \<Longrightarrow> ray_get (ray_free refs st) ref = ray_get st ref"
  unfolding ray_free_def
  by (induction refs arbitrary: st) (auto simp: ray_get_update)

lemma ray_get_append_lt:
  "ref < length s \<Longrightarrow> ray_get (s @ new) ref = ray_get s ref"
  by (simp add: ray_get_def nth_append)

lemma placement_refs_new:
  assumes "placement_inv s pl"
  shows "\<forall>x \<in> set (refs_to_free pl). length s \<le> x"
    and "set (refs_to_free pl) \<subseteq> fst ` set (puts pl)"
    and "\<forall>ref < length s. ray_get (pl_store pl) ref = ray_get s ref"
proof -
  obtain new where new: "pl_store pl = s @ new"
      "map fst (puts pl) = [length s ..< length s + length new]"
      "refs_to_free pl = map fst (puts pl)"
    using assms unfolding placement_inv_def by blast
  show "\<forall>x \<in> set (refs_to_free pl). length s \<le> x"
    unfolding new(3) new(2) by simp
  show "set (refs_to_free pl) \<subseteq> fst ` set (puts pl)"
    unfolding new(3) by simp
  show "\<forall>ref < length s. ray_get (pl_store pl) ref = ray_get s ref"
    unfolding new(1) by (simp add: ray_get_append_lt)
qed

lemma distributed_path_frame:
  "(\<forall>x \<in> set (freed (distributed_path env sched s inp ids dir c w)). length s \<le> x) \<and>
   set (freed (distributed_path env sched s inp ids dir c w))
     \<subseteq> fst ` set (placed (distributed_path env sched s inp ids dir c w)) \<and>
   (\<forall>ref < length s.
      ray_get (store (distributed_path env sched s inp ids dir c w)) ref = ray_get s ref)"
proof -
  let ?r = "distributed_path env sched s inp ids dir c w"
  let ?pl = "place_inputs s ids inp"
  note pn = placement_refs_new [OF place_inputs_inv [of s ids inp]]
  have fr: "set (freed ?r) \<subseteq> set (refs_to_free ?pl)"
    by (simp add: distributed_path_freed)
  have 1: "\<forall>x \<in> set (freed ?r). length s \<le> x" using fr pn(1) by blast
  have 2: "set (freed ?r) \<subseteq> fst ` set (placed ?r)"
    using fr pn(2) by (auto simp: distributed_path_placed)
  have 3: "ray_get (store ?r) ref = ray_get s ref" if lt: "ref < length s" for ref
  proof -
    have "ref \<notin> set (freed ?r)" using 1 lt by auto
    then have "ray_get (store ?r) ref = ray_get (pl_store ?pl) ref"
      by (simp add: distributed_path_store ray_get_free)
    then show ?thesis using pn(3) lt by simp
  qed
  show ?thesis using 1 2 3 by blast
qed

lemma entry_frame:
  "(\<forall>x \<in> set (freed (iterative_precovery_and_differential_correction env sched s orbits
                        orbit_members observations dir c mp)). length s \<le> x) \<and>
   set (freed (iterative_precovery_and_differential_correction env sched s orbits
                 orbit_members observations dir c mp))
     \<subseteq> fst ` set (placed (iterative_precovery_and_differential_correction env sched s orbits
                           orbit_members observations dir c mp)) \<and>
   (\<forall>ref < length s.
      ray_get (store (iterative_precovery_and_differential_correction env sched s orbits
                        orbit_members observations dir c mp)) ref = ray_get s ref)"
proof (cases "retrieve_inputs s orbits orbit_members observations")
  case (Inl e)
  then show ?thesis by (simp add: entry_retrieve_error)
next
  case (Inr inp)
  show ?thesis
  proof (cases "in_orbits inp = []")
    case True
    then show ?thesis by (simp add: entry_empty [OF Inr])
  next
    case False
    show ?thesis
    proof (cases "initialize_use_ray env (worker_count env mp)")
      case use_ray: True
      show ?thesis
        unfolding entry_distributed [OF Inr False use_ray] by (rule distributed_path_frame)
    next
      case no_ray: False
      show ?thesis
        by (simp add: entry_sequential [OF Inr False no_ray] sequential_path_def Let_def)
    qed
  qed
qed

lemma caller_reference_valid:
  assumes "retrieve_inputs s orbits orbit_members observations = Inr inp"
    and "orbits = Reference ref \<or> orbit_members = Some (Reference ref) \<or>
         observations = Some (Reference ref)"
  shows "ref < length s"
  using assms
  by (auto simp: retrieve_inputs_def dest: get_orbits_valid get_orbit_members_valid
      get_observations_valid split: input.splits option.splits sum.splits)

section \<open>Completions, merges and aborted runs: lemmas\<close>

lemma iterate_chunks_single_worker:
  "iterate_chunks xs c = iterate_chunks xs (min (nat \<lceil>real (length xs) / real (1::nat)\<rceil>) c)"
proof (cases "c = 0")
  case True
  then show ?thesis by simp
next
  case False
  then have "0 < c" by simp
  then show ?thesis by (rule iterate_chunks_one_worker)
qed

lemma completed_append: "completed (xs @ ys) = completed xs @ completed ys"
  by (induction xs rule: completed.induct) auto

lemma drain_loop_merged:
  assumes p_merge: "\<And>a b. p (merge_batch a b) = p a @ p b"
  shows "snd (drain_loop sched get futures totals) = Inr totals' \<Longrightarrow>
     p totals' = p totals @
       concat (map (\<lambda>t. p (projr (get t)))
                 (completed (fst (drain_loop sched get futures totals)))) \<and>
     mset (completed (fst (drain_loop sched get futures totals))) = mset futures"
proof (induction sched get futures totals rule: drain_loop.induct)
  case (1 sched get futures totals)
  show ?case
  proof (cases "futures = []")
    case True
    then show ?thesis using "1.prems" by (simp add: drain_loop_Nil)
  next
    case False
    let ?w = "ray_wait sched futures"
    obtain b where fin: "get (fst ?w) = Inr b"
      using "1.prems" drain_loop_Inl [of futures get sched _ totals] False
      by (cases "get (fst ?w)") auto
    note unf = drain_loop_Inr [of futures get sched b totals, OF False fin]
    have res: "snd (drain_loop sched get (snd ?w) (merge_batch totals b)) = Inr totals'"
      using "1.prems" by (simp add: unf)
    note ih = "1.IH" [OF False fin res]
    show ?thesis
      using ih by (simp add: unf p_merge fin ray_wait_mset [OF False, of sched])
  qed
qed

lemma submit_loop_merged:
  assumes p_merge: "\<And>a b. p (merge_batch a b) = p a @ p b"
  shows "snd (submit_loop sched get w ts futures totals) = Inr (futures', totals') \<Longrightarrow>
     p totals' = p totals @
       concat (map (\<lambda>t. p (projr (get t)))
                 (completed (fst (submit_loop sched get w ts futures totals)))) \<and>
     mset (completed (fst (submit_loop sched get w ts futures totals))) + mset futures' =
       mset futures + mset ts"
proof (induction ts arbitrary: futures totals)
  case Nil
  then show ?case by simp
next
  case (Cons x ts)
  let ?f1 = "futures @ [x]"
  have ne: "?f1 \<noteq> []" by simp
  show ?case
  proof (cases "3 * w \<le> 2 * length ?f1")
    case True
    let ?w = "ray_wait sched ?f1"
    obtain b where fin: "get (fst ?w) = Inr b"
      using Cons.prems True by (auto simp: Let_def split: sum.splits)
    have res: "snd (submit_loop sched get w ts (snd ?w) (merge_batch totals b)) =
               Inr (futures', totals')"
      using Cons.prems True fin by (simp add: Let_def)
    note ih = Cons.IH [OF res]
    have m: "mset futures + mset (x # ts) = add_mset (fst ?w) (mset (snd ?w) + mset ts)"
      using ray_wait_mset [OF ne, of sched] by simp
    show ?thesis
      using ih True fin unfolding m by (simp add: Let_def p_merge)
  next
    case False
    have res: "snd (submit_loop sched get w ts ?f1 totals) = Inr (futures', totals')"
      using Cons.prems False by (simp add: Let_def)
    show ?thesis using Cons.IH [OF res] False by (simp add: Let_def)
  qed
qed

lemma dispatch_all_merged:
  assumes p_merge: "\<And>a b. p (merge_batch a b) = p a @ p b"
    and p_empty: "p empty_batch = []"
    and res: "snd (dispatch_all sched get w tasks) = Inr totals"
  shows "p totals = concat (map (\<lambda>t. p (projr (get t)))
                             (completed (fst (dispatch_all sched get w tasks)))) \<and>
         mset (completed (fst (dispatch_all sched get w tasks))) = mset tasks"
proof -
  let ?r1 = "submit_loop sched get w tasks [] empty_batch"
  obtain futures' totals' where r1: "snd ?r1 = Inr (futures', totals')"
    using res by (cases "snd ?r1") (auto simp: dispatch_all_def Let_def)
  let ?r2 = "drain_loop sched get futures' totals'"
  have r2: "snd ?r2 = Inr totals" and tr: "fst (dispatch_all sched get w tasks) = fst ?r1 @ fst ?r2"
    using res r1 by (simp_all add: dispatch_all_def Let_def)
  note a = submit_loop_merged [of p, OF p_merge r1]
  note b = drain_loop_merged [of p, OF p_merge r2]
  have "mset (completed (fst ?r1)) + mset (completed (fst ?r2)) = mset tasks"
    using a b by simp
  then show ?thesis
    using a b by (simp add: tr completed_append p_empty)
qed

lemma drain_loop_stops:
  "snd (drain_loop sched get futures totals) = Inl e \<Longrightarrow>
   \<exists>tr t n. fst (drain_loop sched get futures totals) = tr @ [Complete t n] \<and>
     get t = Inl e \<and> t \<in> set futures \<and> (\<forall>t' \<in> set (completed tr). \<not> isl (get t'))"
proof (induction sched get futures totals rule: drain_loop.induct)
  case (1 sched get futures totals)
  have ne: "futures \<noteq> []" using "1.prems" by (auto simp: drain_loop_Nil)
  let ?w = "ray_wait sched futures"
  have mem: "fst ?w \<in> set futures" using ray_wait_set [OF ne, of sched] by auto
  have sub: "set (snd ?w) \<subseteq> set futures" using ray_wait_set [OF ne, of sched] by auto
  show ?case
  proof (cases "get (fst ?w)")
    case (Inl e')
    note unf = drain_loop_Inl [of futures get sched e' totals, OF ne Inl]
    have "e' = e" using "1.prems" by (simp add: unf)
    then have "fst (drain_loop sched get futures totals) = [] @ [Complete (fst ?w) (length futures)]
        \<and> get (fst ?w) = Inl e \<and> fst ?w \<in> set futures \<and>
        (\<forall>t' \<in> set (completed []). \<not> isl (get t'))"
      using Inl mem by (simp add: unf)
    then show ?thesis by blast
  next
    case (Inr b)
    note unf = drain_loop_Inr [of futures get sched b totals, OF ne Inr]
    have res: "snd (drain_loop sched get (snd ?w) (merge_batch totals b)) = Inl e"
      using "1.prems" by (simp add: unf)
    from "1.IH" [OF ne Inr res]
    obtain tr t n where ih:
      "fst (drain_loop sched get (snd ?w) (merge_batch totals b)) = tr @ [Complete t n]"
      "get t = Inl e" "t \<in> set (snd ?w)" "\<forall>t' \<in> set (completed tr). \<not> isl (get t')"
      by blast
    have "fst (drain_loop sched get futures totals) =
            (Complete (fst ?w) (length futures) # tr) @ [Complete t n] \<and>
          get t = Inl e \<and> t \<in> set futures \<and>
          (\<forall>t' \<in> set (completed (Complete (fst ?w) (length futures) # tr)). \<not> isl (get t'))"
      using ih sub Inr by (auto simp: unf)
    then show ?thesis by blast
  qed
qed

lemma drain_loop_completed_ok:
  "snd (drain_loop sched get futures totals) = Inr totals' \<Longrightarrow>
   t \<in> set (completed (fst (drain_loop sched get futures totals))) \<Longrightarrow> \<not> isl (get t)"
  using drain_loop_merged [of ipod_orbits sched get futures totals totals']
    drain_loop_failure [of sched get futures totals totals' t]
  by (metis merge_batch_rows(1) set_mset_mset)

lemma submit_loop_stops:
  "(\<forall>e. snd (submit_loop sched get w ts futures totals) = Inl e \<longrightarrow>
      (\<exists>tr t n. fst (submit_loop sched get w ts futures totals) = tr @ [Complete t n] \<and>
         get t = Inl e \<and> t \<in> set futures \<union> set ts \<and>
         (\<forall>t' \<in> set (completed tr). \<not> isl (get t')))) \<and>
   (\<forall>ft. snd (submit_loop sched get w ts futures totals) = Inr ft \<longrightarrow>
      set (fst ft) \<subseteq> set futures \<union> set ts \<and>
      (\<forall>t' \<in> set (completed (fst (submit_loop sched get w ts futures totals))).
         \<not> isl (get t')))"
proof (induction ts arbitrary: futures totals)
  case Nil
  then show ?case by simp
next
  case (Cons x ts)
  let ?f1 = "futures @ [x]"
  have ne: "?f1 \<noteq> []" by simp
  show ?case
  proof (cases "3 * w \<le> 2 * length ?f1")
    case True
    let ?w = "ray_wait sched ?f1"
    have mem: "fst ?w \<in> set futures \<union> {x}" using ray_wait_set [OF ne, of sched] by auto
    have sub: "set (snd ?w) \<subseteq> set futures \<union> {x}" using ray_wait_set [OF ne, of sched] by auto
    show ?thesis
    proof (cases "get (fst ?w)")
      case (Inl e')
      have unf: "submit_loop sched get w (x # ts) futures totals =
          ([Submit x (length futures), Complete (fst ?w) (length ?f1)], Inl e')"
        using True Inl by (simp add: Let_def)
      have "[Submit x (length futures), Complete (fst ?w) (length ?f1)] =
            [Submit x (length futures)] @ [Complete (fst ?w) (length ?f1)] \<and>
            get (fst ?w) = Inl e' \<and> fst ?w \<in> set futures \<union> set (x # ts) \<and>
            (\<forall>t' \<in> set (completed [Submit x (length futures)]). \<not> isl (get t'))"
        using Inl mem by auto
      then show ?thesis unfolding unf by (simp del: append.simps)
    next
      case (Inr b)
      let ?rec = "submit_loop sched get w ts (snd ?w) (merge_batch totals b)"
      have unf: "submit_loop sched get w (x # ts) futures totals =
          (Submit x (length futures) # Complete (fst ?w) (length ?f1) # fst ?rec, snd ?rec)"
        using True Inr by (simp add: Let_def)
      note ih = Cons.IH [of "snd ?w" "merge_batch totals b"]
      have a: "\<exists>tr t n. Submit x (length futures) # Complete (fst ?w) (length ?f1) # fst ?rec =
                 tr @ [Complete t n] \<and> get t = Inl e \<and> t \<in> set futures \<union> set (x # ts) \<and>
                 (\<forall>t' \<in> set (completed tr). \<not> isl (get t'))"
        if e: "snd ?rec = Inl e" for e
      proof -
        obtain tr t n where h: "fst ?rec = tr @ [Complete t n]" "get t = Inl e"
            "t \<in> set (snd ?w) \<union> set ts" "\<forall>t' \<in> set (completed tr). \<not> isl (get t')"
          using ih e by blast
        have "Submit x (length futures) # Complete (fst ?w) (length ?f1) # fst ?rec =
                (Submit x (length futures) # Complete (fst ?w) (length ?f1) # tr) @ [Complete t n]
              \<and> get t = Inl e \<and> t \<in> set futures \<union> set (x # ts) \<and>
              (\<forall>t' \<in> set (completed (Submit x (length futures) #
                    Complete (fst ?w) (length ?f1) # tr)). \<not> isl (get t'))"
          using h sub Inr by auto
        then show ?thesis by blast
      qed
      have b: "set (fst ft) \<subseteq> set futures \<union> set (x # ts) \<and>
               (\<forall>t' \<in> set (completed (Submit x (length futures) #
                    Complete (fst ?w) (length ?f1) # fst ?rec)). \<not> isl (get t'))"
        if ft: "snd ?rec = Inr ft" for ft
        using ih ft sub Inr by auto
      show ?thesis unfolding unf using a b by simp
    qed
  next
    case False
    let ?rec = "submit_loop sched get w ts ?f1 totals"
    have unf: "submit_loop sched get w (x # ts) futures totals =
          (Submit x (length futures) # fst ?rec, snd ?rec)"
      using False by (simp add: Let_def)
    note ih = Cons.IH [of ?f1 totals]
    have a: "\<exists>tr t n. Submit x (length futures) # fst ?rec = tr @ [Complete t n] \<and>
                 get t = Inl e \<and> t \<in> set futures \<union> set (x # ts) \<and>
                 (\<forall>t' \<in> set (completed tr). \<not> isl (get t'))"
      if e: "snd ?rec = Inl e" for e
    proof -
      obtain tr t n where h: "fst ?rec = tr @ [Complete t n]" "get t = Inl e"
          "t \<in> set ?f1 \<union> set ts" "\<forall>t' \<in> set (completed tr). \<not> isl (get t')"
        using ih e by blast
      have "Submit x (length futures) # fst ?rec =
              (Submit x (length futures) # tr) @ [Complete t n]
            \<and> get t = Inl e \<and> t \<in> set futures \<union> set (x # ts) \<and>
            (\<forall>t' \<in> set (completed (Submit x (length futures) # tr)). \<not> isl (get t'))"
        using h by auto
      then show ?thesis by blast
    qed
    have b: "set (fst ft) \<subseteq> set futures \<union> set (x # ts) \<and>
             (\<forall>t' \<in> set (completed (Submit x (length futures) # fst ?rec)). \<not> isl (get t'))"
      if ft: "snd ?rec = Inr ft" for ft
      using ih ft by auto
    show ?thesis unfolding unf using a b by simp
  qed
qed

lemma dispatch_all_stops:
  assumes "snd (dispatch_all sched get w tasks) = Inl e"
  shows "\<exists>tr t n. fst (dispatch_all sched get w tasks) = tr @ [Complete t n] \<and>
     get t = Inl e \<and> t \<in> set tasks \<and> (\<forall>t' \<in> set (completed tr). \<not> isl (get t'))"
proof (cases "snd (submit_loop sched get w tasks [] empty_batch)")
  case (Inl e')
  then have "e' = e" using assms by (simp add: dispatch_all_def Let_def)
  then show ?thesis
    using submit_loop_stops [of sched get w tasks "[]" empty_batch] Inl
    by (simp add: dispatch_all_def Let_def)
next
  case (Inr ft)
  let ?r1 = "submit_loop sched get w tasks [] empty_batch"
  let ?r2 = "drain_loop sched get (fst ft) (snd ft)"
  have tr: "fst (dispatch_all sched get w tasks) = fst ?r1 @ fst ?r2"
    and r2: "snd ?r2 = Inl e"
    using assms Inr by (simp_all add: dispatch_all_def Let_def)
  have s1: "set (fst ft) \<subseteq> set tasks"
    "\<forall>t' \<in> set (completed (fst ?r1)). \<not> isl (get t')"
    using submit_loop_stops [of sched get w tasks "[]" empty_batch] Inr by auto
  obtain tr2 t n where h: "fst ?r2 = tr2 @ [Complete t n]" "get t = Inl e" "t \<in> set (fst ft)"
      "\<forall>t' \<in> set (completed tr2). \<not> isl (get t')"
    using drain_loop_stops [OF r2] by blast
  have "fst (dispatch_all sched get w tasks) = (fst ?r1 @ tr2) @ [Complete t n] \<and>
     get t = Inl e \<and> t \<in> set tasks \<and> (\<forall>t' \<in> set (completed (fst ?r1 @ tr2)). \<not> isl (get t'))"
    using h s1 by (auto simp: tr completed_append)
  then show ?thesis by blast
qed

lemma concat_split:
  "concat xss = pre @ x # post \<Longrightarrow>
   \<exists>cs1 p q cs2. xss = cs1 @ (p @ x # q) # cs2 \<and> concat cs1 @ p = pre"
proof (induction xss arbitrary: pre)
  case Nil
  then show ?case by simp
next
  case (Cons ys rest)
  have eq: "ys @ concat rest = pre @ x # post" using Cons.prems by simp
  have "\<exists>us. ys = pre @ us \<and> us @ concat rest = x # post \<or>
             ys @ us = pre \<and> concat rest = us @ x # post"
    using eq by (simp only: append_eq_append_conv2)
  then obtain us where us: "ys = pre @ us \<and> us @ concat rest = x # post \<or>
             ys @ us = pre \<and> concat rest = us @ x # post"
    by blast
  have "(\<exists>us. ys = pre @ us \<and> us @ concat rest = x # post \<and> us \<noteq> []) \<or>
        (\<exists>us. ys @ us = pre \<and> concat rest = us @ x # post)"
  proof (cases "ys = pre @ us \<and> us @ concat rest = x # post \<and> us = []")
    case True
    then have "ys @ [] = pre \<and> concat rest = [] @ x # post" by auto
    then show ?thesis by blast
  next
    case False
    then show ?thesis using us by blast
  qed
  then consider (here) us where "ys = pre @ us" "us @ concat rest = x # post" "us \<noteq> []"
    | (later) us where "ys @ us = pre" "concat rest = us @ x # post"
    by blast
  then show ?case
  proof cases
    case here
    then obtain q where "us = x # q" by (cases us) auto
    then have "ys # rest = [] @ (pre @ x # q) # rest \<and> concat [] @ pre = pre"
      using here(1) by simp
    then show ?thesis by blast
  next
    case later
    from Cons.IH [OF later(2)]
    obtain cs1 p q cs2 where h: "rest = cs1 @ (p @ x # q) # cs2" "concat cs1 @ p = us"
      by blast
    have "ys # rest = (ys # cs1) @ (p @ x # q) # cs2 \<and> concat (ys # cs1) @ p = pre"
      using h later(1) by simp
    then show ?thesis by blast
  qed
qed

lemma sequential_loop_stops:
  assumes ok: "\<forall>ch \<in> set cs1. \<not> isl (chunk_result env inp dir ch)"
    and fail: "chunk_result env inp dir ch = Inl e"
  shows "sequential_loop env inp dir (cs1 @ ch # cs2) totals =
           (map (\<lambda>ch. (ch, fst (ipod_worker env ch (in_orbits inp) (in_orbit_members inp)
                                   (in_observations inp) (Inl dir)))) cs1 @
              [(ch, fst (ipod_worker env ch (in_orbits inp) (in_orbit_members inp)
                           (in_observations inp) (Inl dir)))],
            Inl e)"
  using ok
proof (induction cs1 arbitrary: totals)
  case Nil
  show ?case using fail by (simp add: Let_def ipod_worker_chunk_result)
next
  case (Cons a cs1)
  obtain b where b: "chunk_result env inp dir a = Inr b"
    using Cons.prems by (cases "chunk_result env inp dir a") auto
  have rest: "\<forall>ch \<in> set cs1. \<not> isl (chunk_result env inp dir ch)" using Cons.prems by simp
  show ?case
    using Cons.IH [OF rest, of "merge_batch totals b"] b
    by (simp add: Let_def ipod_worker_chunk_result)
qed

lemma worker_loop_Inl_split:
  "snd (worker_loop env orbits om obs db ids acc) = Inl e' \<Longrightarrow>
   \<exists>p x q. ids = p @ x # q \<and>
     (\<forall>y \<in> set p. \<not> isl (process_orbit env orbits om obs db y)) \<and>
     process_orbit env orbits om obs db x = Inl e'"
proof (induction ids arbitrary: acc)
  case Nil
  then show ?case by simp
next
  case (Cons a ids)
  show ?case
  proof (cases "process_orbit env orbits om obs db a")
    case (Inl e'')
    then have "e'' = e'"
      using Cons.prems by (auto simp: process_orbit_def Let_def split: sum.splits)
    then have "a # ids = [] @ a # ids \<and>
        (\<forall>y \<in> set []. \<not> isl (process_orbit env orbits om obs db y)) \<and>
        process_orbit env orbits om obs db a = Inl e'"
      using Inl by simp
    then show ?thesis by blast
  next
    case (Inr b)
    then have "snd (worker_loop env orbits om obs db ids (merge_batch acc b)) = Inl e'"
      using Cons.prems by (auto simp: process_orbit_def Let_def split: sum.splits)
    from Cons.IH [OF this]
    obtain p x q where h: "ids = p @ x # q"
        "\<forall>y \<in> set p. \<not> isl (process_orbit env orbits om obs db y)"
        "process_orbit env orbits om obs db x = Inl e'"
      by blast
    have "a # ids = (a # p) @ x # q \<and>
        (\<forall>y \<in> set (a # p). \<not> isl (process_orbit env orbits om obs db y)) \<and>
        process_orbit env orbits om obs db x = Inl e'"
      using h Inr by simp
    then show ?thesis by blast
  qed
qed

lemma chunk_result_Inl_split:
  "chunk_result env inp dir chunk = Inl e' \<Longrightarrow>
   \<exists>p x q. chunk = p @ x # q \<and>
     (\<forall>y \<in> set p. \<not> isl (process_orbit env (in_orbits inp) (in_orbit_members inp)
                               (in_observations inp) (PrecoveryDatabase dir) y)) \<and>
     process_orbit env (in_orbits inp) (in_orbit_members inp) (in_observations inp)
       (PrecoveryDatabase dir) x = Inl e'"
  unfolding chunk_result_def by (rule worker_loop_Inl_split)

lemma chunk_result_not_isl:
  "\<forall>y \<in> set chunk. process_orbit env (in_orbits inp) (in_orbit_members inp)
       (in_observations inp) (PrecoveryDatabase dir) y = Inr (g y) \<Longrightarrow>
   \<not> isl (chunk_result env inp dir chunk)"
  using chunk_result_ok [of chunk env inp dir g] by simp

text \<open>sequential\<close>

lemma sequential_path_stops:
  assumes ids: "ids = pre @ oid # rest"
    and pre_ok: "\<forall>x \<in> set pre. process_orbit env (in_orbits inp) (in_orbit_members inp)
        (in_observations inp) (PrecoveryDatabase dir) x = Inr (g x)"
    and sel: "select (in_orbits inp) oid = Inr orbit"
    and fail: "ipod env orbit
        (orbit_observations_for env (in_orbit_members inp) (in_observations inp) oid)
        (PrecoveryDatabase dir) = Inl e"
    and c: "0 < c"
  shows "result (sequential_path env s inp ids dir c) = Inl e \<and>
         (\<exists>cs1 p q cs2.
            iterate_chunks ids c = cs1 @ (p @ oid # q) # cs2 \<and> concat cs1 @ p = pre \<and>
            local_workers (sequential_path env s inp ids dir c) =
              map (\<lambda>ch. (ch, fst (ipod_worker env ch (in_orbits inp) (in_orbit_members inp)
                                      (in_observations inp) (Inl dir)))) cs1 @
              [(p @ oid # q,
                DbOpen dir #
                map (\<lambda>x. IpodCall x (orbit_observations_for env (in_orbit_members inp)
                                        (in_observations inp) x)) p @
                [IpodCall oid (orbit_observations_for env (in_orbit_members inp)
                                 (in_observations inp) oid),
                 LogError oid e])])"
proof -
  have "concat (iterate_chunks ids c) = pre @ oid # rest"
    using concat_iterate_chunks [OF c, of ids] ids by simp
  from concat_split [OF this]
  obtain cs1 p q cs2 where sp: "iterate_chunks ids c = cs1 @ (p @ oid # q) # cs2"
      "concat cs1 @ p = pre"
    by blast
  have p_ok: "\<forall>x \<in> set p. process_orbit env (in_orbits inp) (in_orbit_members inp)
        (in_observations inp) (PrecoveryDatabase dir) x = Inr (g x)"
    using pre_ok sp(2) by auto
  have cs_ok: "\<forall>ch \<in> set cs1. \<not> isl (chunk_result env inp dir ch)"
  proof
    fix ch assume "ch \<in> set cs1"
    then have "set ch \<subseteq> set pre" using sp(2) by auto
    then show "\<not> isl (chunk_result env inp dir ch)"
      using pre_ok by (intro chunk_result_not_isl [of _ _ _ _ g]) auto
  qed
  note wl = worker_loop_refinement_failure [OF p_ok sel fail, of q empty_batch]
  have w: "ipod_worker env (p @ oid # q) (in_orbits inp) (in_orbit_members inp)
             (in_observations inp) (Inl dir) =
           (DbOpen dir #
              map (\<lambda>x. IpodCall x (orbit_observations_for env (in_orbit_members inp)
                                      (in_observations inp) x)) p @
              [IpodCall oid (orbit_observations_for env (in_orbit_members inp)
                               (in_observations inp) oid),
               LogError oid e],
            Inl e)"
    by (simp add: ipod_worker_def Let_def wl)
  have cf: "chunk_result env inp dir (p @ oid # q) = Inl e"
    using w ipod_worker_chunk_result [of env "p @ oid # q" inp dir] by simp
  note st = sequential_loop_stops [OF cs_ok cf, of cs2 empty_batch]
  have "result (sequential_path env s inp ids dir c) = Inl e"
    by (simp add: sequential_path_local sp(1) st)
  moreover have "local_workers (sequential_path env s inp ids dir c) =
              map (\<lambda>ch. (ch, fst (ipod_worker env ch (in_orbits inp) (in_orbit_members inp)
                                      (in_observations inp) (Inl dir)))) cs1 @
              [(p @ oid # q,
                DbOpen dir #
                map (\<lambda>x. IpodCall x (orbit_observations_for env (in_orbit_members inp)
                                        (in_observations inp) x)) p @
                [IpodCall oid (orbit_observations_for env (in_orbit_members inp)
                                 (in_observations inp) oid),
                 LogError oid e])]"
    by (simp add: sequential_path_local sp(1) st w)
  ultimately show ?thesis using sp by blast
qed

lemma distributed_path_stops:
  assumes ok: "inputs_ok s inp" and w: "0 < w"
    and fail: "result (distributed_path env sched s inp ids dir c w) = Inl e'"
  shows "\<exists>tr t n p x q.
           dispatch (distributed_path env sched s inp ids dir c w) = tr @ [Complete t n] \<and>
           (\<forall>t' \<in> set (completed tr). \<not> isl (task_result env s inp ids dir t')) \<and>
           slice ids (t_indices t) = p @ x # q \<and>
           (\<forall>y \<in> set p. \<not> isl (process_orbit env (in_orbits inp) (in_orbit_members inp)
                                     (in_observations inp) (PrecoveryDatabase dir) y)) \<and>
           process_orbit env (in_orbits inp) (in_orbit_members inp) (in_observations inp)
             (PrecoveryDatabase dir) x = Inl e'"
proof -
  let ?get = "task_result env s inp ids dir"
  let ?tasks = "planned_tasks s inp ids c w"
  have d: "snd (dispatch_all sched ?get w ?tasks) = Inl e'"
    using fail by (simp add: distributed_path_result [OF w])
  from dispatch_all_stops [OF d]
  obtain tr t n where h: "fst (dispatch_all sched ?get w ?tasks) = tr @ [Complete t n]"
      "?get t = Inl e'" "t \<in> set ?tasks" "\<forall>t' \<in> set (completed tr). \<not> isl (?get t')"
    by blast
  obtain ix where t: "t = chunk_task (place_inputs s ids inp) ix"
    using h(3) by (auto simp: planned_tasks_def)
  have ix: "t_indices t = ix" by (simp add: t chunk_task_def)
  have "chunk_result env inp dir (slice ids (t_indices t)) = Inl e'"
    using h(2) unfolding ix by (simp add: t task_result_planned [OF ok])
  from chunk_result_Inl_split [OF this]
  obtain p x q where sp: "slice ids (t_indices t) = p @ x # q"
      "\<forall>y \<in> set p. \<not> isl (process_orbit env (in_orbits inp) (in_orbit_members inp)
                                     (in_observations inp) (PrecoveryDatabase dir) y)"
      "process_orbit env (in_orbits inp) (in_orbit_members inp) (in_observations inp)
             (PrecoveryDatabase dir) x = Inl e'"
    by blast
  have d1: "dispatch (distributed_path env sched s inp ids dir c w) = tr @ [Complete t n]"
    using h(1) by (simp add: distributed_path_dispatch [OF w])
  show ?thesis
    by (intro exI conjI) (rule d1, rule h(4), rule sp(1), rule sp(2), rule sp(3))
qed

lemma distributed_path_only_failure:
  assumes ok: "inputs_ok s inp" and w: "0 < w" and c: "0 < c"
    and ids: "ids = pre @ oid # rest"
    and pre_ok: "\<forall>x \<in> set pre. \<not> isl (process_orbit env (in_orbits inp) (in_orbit_members inp)
        (in_observations inp) (PrecoveryDatabase dir) x)"
    and rest_ok: "\<forall>x \<in> set rest. \<not> isl (process_orbit env (in_orbits inp)
        (in_orbit_members inp) (in_observations inp) (PrecoveryDatabase dir) x)"
    and fail: "process_orbit env (in_orbits inp) (in_orbit_members inp) (in_observations inp)
        (PrecoveryDatabase dir) oid = Inl e"
  shows "result (distributed_path env sched s inp ids dir c w) = Inl e"
proof -
  let ?R = "distributed_path env sched s inp ids dir c w"
  have mem: "oid \<in> set ids" using ids by simp
  have "isl (result ?R)"
    using distributed_path_failure [OF ok mem _ c, of env dir sched w] fail by simp
  then obtain e' where e': "result ?R = Inl e'" by (cases "result ?R") auto
  from distributed_path_stops [OF ok w e']
  obtain t :: task and p x q where h: "slice ids (t_indices t) = p @ x # q"
      "process_orbit env (in_orbits inp) (in_orbit_members inp) (in_observations inp)
             (PrecoveryDatabase dir) x = Inl e'"
    by blast
  have "x \<in> set (slice ids (t_indices t))" unfolding h(1) by simp
  then have "x \<in> set ids" using set_slice [of ids "t_indices t"] by blast
  then have xs: "x \<in> set pre \<or> x = oid \<or> x \<in> set rest" unfolding ids by auto
  have xf: "isl (process_orbit env (in_orbits inp) (in_orbit_members inp) (in_observations inp)
             (PrecoveryDatabase dir) x)"
    unfolding h(2) by simp
  have "x = oid" using xs xf pre_ok rest_ok by blast
  then have "e' = e" using h(2) fail by simp
  then show ?thesis using e' by simp
qed

lemma waits_no_submit: "submitted evs = [] \<Longrightarrow> waits_at_threshold w evs"
  by (induction evs rule: submitted.induct) auto

lemma submit_loop_waits:
  "waits_at_threshold w cs \<Longrightarrow>
   waits_at_threshold w (fst (submit_loop sched get w ts futures totals) @ cs)"
proof (induction ts arbitrary: futures totals)
  case Nil
  then show ?case by simp
next
  case (Cons x ts)
  show ?case
  proof (cases "3 * w \<le> 2 * length (futures @ [x])")
    case True
    show ?thesis
    proof (cases "get (fst (ray_wait sched (futures @ [x])))")
      case (Inl e)
      then show ?thesis using True Cons.prems by (simp add: Let_def)
    next
      case (Inr b)
      then show ?thesis
        using True Cons.IH [OF Cons.prems] by (simp add: Let_def)
    qed
  next
    case False
    then show ?thesis using Cons.IH [OF Cons.prems] by (simp add: Let_def)
  qed
qed

lemma dispatch_all_waits: "waits_at_threshold w (fst (dispatch_all sched get w tasks))"
proof (cases "snd (submit_loop sched get w tasks [] empty_batch)")
  case (Inl e)
  then show ?thesis
    using submit_loop_waits [of w "[]" sched get tasks "[]" empty_batch]
    by (simp add: dispatch_all_def Let_def)
next
  case (Inr ft)
  have "waits_at_threshold w (fst (drain_loop sched get (fst ft) (snd ft)))"
    by (rule waits_no_submit) (rule drain_loop_submitted)
  then show ?thesis
    using Inr submit_loop_waits [of w _ sched get tasks "[]" empty_batch]
    by (simp add: dispatch_all_def Let_def)
qed

lemma entry_merged:
  assumes p_merge: "\<And>a b. p (merge_batch a b) = p a @ p b"
    and p_empty: "p empty_batch = []"
    and inp: "retrieve_inputs s orbits orbit_members observations = Inr inp"
    and ne: "in_orbits inp \<noteq> []"
    and rt: "initialize_use_ray env (worker_count env mp)"
    and res: "result (iterative_precovery_and_differential_correction env sched s orbits
                        orbit_members observations dir c mp) = Inr totals"
  shows "p totals =
           concat (map (\<lambda>t. p (projr (task_result env s inp (map fo_orbit_id (in_orbits inp))
                                          dir t)))
                     (completed (dispatch (iterative_precovery_and_differential_correction env
                        sched s orbits orbit_members observations dir c mp))))"
    and "mset (completed (dispatch (iterative_precovery_and_differential_correction env
                        sched s orbits orbit_members observations dir c mp))) =
         mset (submitted (dispatch (iterative_precovery_and_differential_correction env
                        sched s orbits orbit_members observations dir c mp)))"
proof -
  let ?R = "iterative_precovery_and_differential_correction env sched s orbits
              orbit_members observations dir c mp"
  let ?ids = "map fo_orbit_id (in_orbits inp)"
  let ?w = "worker_count env mp"
  let ?d = "dispatch_all sched (task_result env s inp ?ids dir) ?w
              (planned_tasks s inp ?ids c ?w)"
  have R: "?R = distributed_path env sched s inp ?ids dir c ?w"
    by (rule entry_distributed [OF inp ne rt])
  have w: "0 < ?w"
  proof (rule ccontr)
    assume "\<not> 0 < ?w"
    then have "?w = 0" by simp
    then have "isl (result (distributed_path env sched s inp ?ids dir c ?w))"
      by (simp add: distributed_path_zero)
    then show False using res unfolding R by simp
  qed
  have d: "dispatch ?R = fst ?d" unfolding R by (rule distributed_path_dispatch [OF w])
  have r: "snd ?d = Inr totals"
    using res unfolding R by (simp add: distributed_path_result [OF w])
  note m = dispatch_all_merged [of p sched "task_result env s inp ?ids dir" ?w
      "planned_tasks s inp ?ids c ?w" totals, OF p_merge p_empty r]
  show "p totals =
           concat (map (\<lambda>t. p (projr (task_result env s inp ?ids dir t)))
                     (completed (dispatch ?R)))"
    unfolding d using m by (rule conjunct1)
  show "mset (completed (dispatch ?R)) = mset (submitted (dispatch ?R))"
    unfolding d using m by (simp add: dispatch_all_submitted_all [OF r])
qed

section \<open>The worker: claims\<close>

text \<open>
  C2. The claim: for every chunk task, the worker opens exactly one read-only handle to
  the precovery index and closes it exactly once on every exit path, also when an item's
  refinement raises. The code: whenever \<^verbatim>\<open>ipod_worker_remote\<close> ends with an error, its
  effects hold one opening of the index and no closing; line 201 is skipped.
\<close>

theorem ipod_worker_remote_no_close_on_error:
  assumes "snd (ipod_worker_remote env orbit_ids orbit_ids_indices orbits orbit_members
                  observations database_directory) = Inl e"
  shows "length (filter is_DbOpen (fst (ipod_worker_remote env orbit_ids orbit_ids_indices orbits
                   orbit_members observations database_directory))) = 1 \<and>
         length (filter is_DbClose (fst (ipod_worker_remote env orbit_ids orbit_ids_indices orbits
                   orbit_members observations database_directory))) = 0"
  using assms
  by (auto simp: ipod_worker_remote_def ipod_worker_def Let_def worker_loop_opens
      split: sum.splits)

theorem ipod_worker_remote_no_close_on_error_witness:
  "ipod_worker_remote demo_env [''a'', ''bad'', ''c''] (0, 3)
      [demo_orbit ''a'', demo_orbit ''bad'', demo_orbit ''c''] None None ''index'' =
     ([DbOpen ''index'', IpodCall ''a'' None, IpodCall ''bad'' None,
       LogError ''bad'' (RefinementError ''no convergence'')],
      Inl (RefinementError ''no convergence'')) \<and>
   length (filter is_DbClose (fst (ipod_worker_remote demo_env [''a'', ''bad'', ''c''] (0, 3)
      [demo_orbit ''a'', demo_orbit ''bad'', demo_orbit ''c''] None None ''index''))) = 0"
  using ipod_worker_remote_no_close_on_error [of demo_env "[''a'', ''bad'', ''c'']" "(0, 3)"
      "[demo_orbit ''a'', demo_orbit ''bad'', demo_orbit ''c'']" None None "''index''"
      "RefinementError ''no convergence''"]
  by (simp add: ipod_worker_remote_def ipod_worker_def select_def demo_env_def demo_ipod_def
      demo_orbit_def orbit_observations_for_def slice_def Let_def)

text \<open>
  C6. When the membership table or the observation table is absent (one supplied without
  the other, or neither), every call of the refinement routine made by \<^verbatim>\<open>ipod_worker\<close> and
  by \<^verbatim>\<open>ipod_worker_remote\<close> is given no observations (\<^verbatim>\<open>None\<close>).
\<close>

theorem co_occurrence_degradation:
  assumes "orbit_members = None \<or> observations = None"
  shows "snd ` set (ipod_calls (fst (ipod_worker env orbit_ids orbits orbit_members
                                       observations database))) \<subseteq> {None} \<and>
         snd ` set (ipod_calls (fst (ipod_worker_remote env orbit_ids orbit_ids_indices orbits
                                       orbit_members observations database_directory))) \<subseteq> {None}"
proof -
  have "obs = None"
    if "IpodCall oid obs \<in>
          set (fst (ipod_worker env orbit_ids orbits orbit_members observations database))"
    for oid obs
    using that assms ipod_worker_calls worker_loop_calls_None by blast
  moreover have "obs = None"
    if "IpodCall oid obs \<in>
          set (fst (ipod_worker_remote env orbit_ids orbit_ids_indices orbits orbit_members
                      observations database_directory))"
    for oid obs
    using that assms ipod_worker_remote_calls worker_loop_calls_None by blast
  ultimately show ?thesis
    by (auto simp: ipod_calls_iff)
qed

theorem co_occurrence_degradation_witness:
  "(Some [\<lparr>fm_orbit_id = ''a'', fm_obs_id = ''o1''\<rparr>] = None \<or>
      (None :: observation list option) = None) \<and>
   ipod_calls (fst (ipod_worker demo_env [''a''] [demo_orbit ''a'']
      (Some [\<lparr>fm_orbit_id = ''a'', fm_obs_id = ''o1''\<rparr>]) None (Inl ''index''))) =
     [(''a'', None)] \<and>
   snd ` set (ipod_calls (fst (ipod_worker demo_env [''a''] [demo_orbit ''a'']
      (Some [\<lparr>fm_orbit_id = ''a'', fm_obs_id = ''o1''\<rparr>]) None (Inl ''index'')))) \<subseteq> {None}"
  using co_occurrence_degradation [of "Some [\<lparr>fm_orbit_id = ''a'', fm_obs_id = ''o1''\<rparr>]" None
      demo_env "[''a'']" "[demo_orbit ''a'']" "Inl ''index''"]
  by (simp add: ipod_worker_def select_def demo_env_def demo_ipod_def demo_orbit_def
      orbit_observations_for_def Let_def)

text \<open>
  C9. An identifier of the chunk that has no row in the candidate-orbit table is fatal to
  the chunk: \<^verbatim>\<open>ipod_worker\<close> and \<^verbatim>\<open>ipod_worker_remote\<close> end with an error and return no
  result batch. (The lookup is \<open>select\<close>, as the spec describes it.)
\<close>

theorem lookup_failure_fatal:
  assumes "orbit_id \<notin> fo_orbit_id ` set orbits"
  shows "(orbit_id \<in> set orbit_ids \<longrightarrow>
            isl (snd (ipod_worker env orbit_ids orbits orbit_members observations database))) \<and>
         (orbit_id \<in> set (slice orbit_ids orbit_ids_indices) \<longrightarrow>
            isl (snd (ipod_worker_remote env orbit_ids orbit_ids_indices orbits orbit_members
                        observations database_directory)))"
  using assms worker_loop_missing
  by (simp add: ipod_worker_result ipod_worker_remote_result)

theorem lookup_failure_fatal_witness:
  "''b'' \<notin> fo_orbit_id ` set [demo_orbit ''a''] \<and> ''b'' \<in> set [''a'', ''b''] \<and>
   ipod_worker demo_env [''a'', ''b''] [demo_orbit ''a''] None None (Inl ''index'') =
     ([DbOpen ''index'', IpodCall ''a'' None], Inl (LookupError ''b'')) \<and>
   isl (snd (ipod_worker demo_env [''a'', ''b''] [demo_orbit ''a''] None None (Inl ''index'')))"
  using lookup_failure_fatal [of "''b''" "[demo_orbit ''a'']" "[''a'', ''b'']" demo_env None None
      "Inl ''index''"]
  by (simp add: ipod_worker_def select_def demo_env_def demo_ipod_def demo_orbit_def
      orbit_observations_for_def Let_def)

section \<open>The entry point: claims\<close>

text \<open>
  C3. Let the refinement routine raise \<open>e\<close> for an identifier of the chunk whose row
  exists, every earlier identifier of the chunk having been processed. Then the worker
  (\<^verbatim>\<open>ipod_worker\<close>, and \<^verbatim>\<open>ipod_worker_remote\<close> on that slice) has called the routine for
  the earlier identifiers and for this one, has logged \<open>e\<close> with this identifier as its
  last effect, has processed no later identifier, and ends with \<open>e\<close> and no result
  batch; and a run of the entry point on these tables ends with an error, on the
  distributed path and on the sequential one.

  On the sequential path, when every identifier of the run before this one has been
  processed, the run ends with \<open>e\<close> itself; \<^verbatim>\<open>ipod_worker\<close> has been called on the
  chunks before the one of this identifier and on that chunk, where it stopped at this
  identifier, and on no later chunk.

  On the distributed path (\<open>W \<ge> 1\<close>) the last event of the dispatcher is the completion
  of a task whose worker raised: every task completed before had returned a batch, no
  completion is awaited afterwards, and the run ends with the error that this worker
  raised at the first identifier of its chunk that fails. When no identifier after this
  one fails either, that error is \<open>e\<close>.
\<close>

theorem refinement_failure_aborts:
  assumes pre_ok: "\<forall>x \<in> set pre.
        process_orbit env orbits om obs (PrecoveryDatabase dir) x = Inr (g x)"
    and sel: "select orbits oid = Inr orbit"
    and fail: "ipod env orbit (orbit_observations_for env om obs oid) (PrecoveryDatabase dir)
                 = Inl e"
  shows "ipod_worker env (pre @ oid # post) orbits om obs (Inl dir) =
           (DbOpen dir # map (\<lambda>x. IpodCall x (orbit_observations_for env om obs x)) pre @
              [IpodCall oid (orbit_observations_for env om obs oid), LogError oid e],
            Inl e) \<and>
         (slice ids ix = pre @ oid # post \<longrightarrow>
            ipod_worker_remote env ids ix orbits om obs dir =
              (DbOpen dir # map (\<lambda>x. IpodCall x (orbit_observations_for env om obs x)) pre @
                 [IpodCall oid (orbit_observations_for env om obs oid), LogError oid e],
               Inl e)) \<and>
         (retrieve_inputs s orbits_in om_in obs_in = Inr inp \<and> in_orbits inp = orbits \<and>
          in_orbit_members inp = om \<and> in_observations inp = obs \<and> 0 < c \<longrightarrow>
            isl (result (iterative_precovery_and_differential_correction env sched s orbits_in
                           om_in obs_in dir c mp))) \<and>
         (retrieve_inputs s orbits_in om_in obs_in = Inr inp \<and> in_orbits inp = orbits \<and>
          in_orbit_members inp = om \<and> in_observations inp = obs \<and> 0 < c \<and>
          map fo_orbit_id orbits = pre @ oid # rest \<and>
          \<not> initialize_use_ray env (worker_count env mp) \<longrightarrow>
            result (iterative_precovery_and_differential_correction env sched s orbits_in
                      om_in obs_in dir c mp) = Inl e \<and>
            (\<exists>cs1 p q cs2.
               iterate_chunks (map fo_orbit_id orbits) c = cs1 @ (p @ oid # q) # cs2 \<and>
               concat cs1 @ p = pre \<and>
               local_workers (iterative_precovery_and_differential_correction env sched s
                                orbits_in om_in obs_in dir c mp) =
                 map (\<lambda>ch. (ch, fst (ipod_worker env ch orbits om obs (Inl dir)))) cs1 @
                 [(p @ oid # q,
                   DbOpen dir #
                   map (\<lambda>x. IpodCall x (orbit_observations_for env om obs x)) p @
                   [IpodCall oid (orbit_observations_for env om obs oid), LogError oid e])])) \<and>
         (retrieve_inputs s orbits_in om_in obs_in = Inr inp \<and> in_orbits inp = orbits \<and>
          in_orbit_members inp = om \<and> in_observations inp = obs \<and> 0 < c \<and>
          map fo_orbit_id orbits = pre @ oid # rest \<and>
          initialize_use_ray env (worker_count env mp) \<and> 0 < worker_count env mp \<longrightarrow>
            (\<exists>tr t n p x q e'.
               dispatch (iterative_precovery_and_differential_correction env sched s orbits_in
                           om_in obs_in dir c mp) = tr @ [Complete t n] \<and>
               (\<forall>t' \<in> set (completed tr).
                  \<not> isl (task_result env s inp (map fo_orbit_id orbits) dir t')) \<and>
               slice (map fo_orbit_id orbits) (t_indices t) = p @ x # q \<and>
               (\<forall>y \<in> set p.
                  \<not> isl (process_orbit env orbits om obs (PrecoveryDatabase dir) y)) \<and>
               process_orbit env orbits om obs (PrecoveryDatabase dir) x = Inl e' \<and>
               result (iterative_precovery_and_differential_correction env sched s orbits_in
                         om_in obs_in dir c mp) = Inl e') \<and>
            ((\<forall>y \<in> set rest.
                \<not> isl (process_orbit env orbits om obs (PrecoveryDatabase dir) y)) \<longrightarrow>
               result (iterative_precovery_and_differential_correction env sched s orbits_in
                         om_in obs_in dir c mp) = Inl e))"
proof -
  let ?R = "iterative_precovery_and_differential_correction env sched s orbits_in
              om_in obs_in dir c mp"
  let ?ids = "map fo_orbit_id orbits"
  let ?w = "worker_count env mp"
  note wl = worker_loop_refinement_failure [OF pre_ok sel fail, of post empty_batch]
  have 1: "ipod_worker env (pre @ oid # post) orbits om obs (Inl dir) =
           (DbOpen dir # map (\<lambda>x. IpodCall x (orbit_observations_for env om obs x)) pre @
              [IpodCall oid (orbit_observations_for env om obs oid), LogError oid e],
            Inl e)"
    by (simp add: ipod_worker_def Let_def wl)
  have 2: "ipod_worker_remote env ids ix orbits om obs dir =
              (DbOpen dir # map (\<lambda>x. IpodCall x (orbit_observations_for env om obs x)) pre @
                 [IpodCall oid (orbit_observations_for env om obs oid), LogError oid e],
               Inl e)"
    if "slice ids ix = pre @ oid # post"
    using that by (simp add: ipod_worker_remote_def ipod_worker_def Let_def wl)
  have pf: "process_orbit env orbits om obs (PrecoveryDatabase dir) oid = Inl e"
    using sel fail by (simp add: process_orbit_def)
  have 3: "isl (result ?R)"
    if "retrieve_inputs s orbits_in om_in obs_in = Inr inp" "in_orbits inp = orbits"
       "in_orbit_members inp = om" "in_observations inp = obs" "0 < c"
    using entry_failure [OF that(1) _ _ that(5), of oid env dir sched mp]
      select_Inr_mem [OF sel] pf that(2,3,4) by simp
  have 4: "result ?R = Inl e \<and>
            (\<exists>cs1 p q cs2.
               iterate_chunks ?ids c = cs1 @ (p @ oid # q) # cs2 \<and>
               concat cs1 @ p = pre \<and>
               local_workers ?R =
                 map (\<lambda>ch. (ch, fst (ipod_worker env ch orbits om obs (Inl dir)))) cs1 @
                 [(p @ oid # q,
                   DbOpen dir #
                   map (\<lambda>x. IpodCall x (orbit_observations_for env om obs x)) p @
                   [IpodCall oid (orbit_observations_for env om obs oid), LogError oid e])])"
    if h: "retrieve_inputs s orbits_in om_in obs_in = Inr inp" "in_orbits inp = orbits"
       "in_orbit_members inp = om" "in_observations inp = obs" "0 < c"
       "?ids = pre @ oid # rest" "\<not> initialize_use_ray env ?w"
  proof -
    have ne: "in_orbits inp \<noteq> []" using h(6) h(2) by auto
    have R: "?R = sequential_path env s inp ?ids dir c"
      using entry_sequential [OF h(1) ne, of env mp sched dir c] h(7) by (simp add: h(2))
    have a: "\<forall>x \<in> set pre. process_orbit env (in_orbits inp) (in_orbit_members inp)
        (in_observations inp) (PrecoveryDatabase dir) x = Inr (g x)"
      using pre_ok by (simp add: h(2,3,4))
    have b: "select (in_orbits inp) oid = Inr orbit" using sel by (simp add: h(2))
    have c': "ipod env orbit
        (orbit_observations_for env (in_orbit_members inp) (in_observations inp) oid)
        (PrecoveryDatabase dir) = Inl e"
      using fail by (simp add: h(3,4))
    show ?thesis
      using sequential_path_stops [OF h(6) a b c' h(5), of s]
      unfolding R h(2) h(3) h(4) .
  qed
  have 5: "(\<exists>tr t n p x q e'.
               dispatch ?R = tr @ [Complete t n] \<and>
               (\<forall>t' \<in> set (completed tr). \<not> isl (task_result env s inp ?ids dir t')) \<and>
               slice ?ids (t_indices t) = p @ x # q \<and>
               (\<forall>y \<in> set p.
                  \<not> isl (process_orbit env orbits om obs (PrecoveryDatabase dir) y)) \<and>
               process_orbit env orbits om obs (PrecoveryDatabase dir) x = Inl e' \<and>
               result ?R = Inl e') \<and>
            ((\<forall>y \<in> set rest.
                \<not> isl (process_orbit env orbits om obs (PrecoveryDatabase dir) y)) \<longrightarrow>
               result ?R = Inl e)"
    if h: "retrieve_inputs s orbits_in om_in obs_in = Inr inp" "in_orbits inp = orbits"
       "in_orbit_members inp = om" "in_observations inp = obs" "0 < c"
       "?ids = pre @ oid # rest" "initialize_use_ray env ?w" "0 < ?w"
  proof -
    have ne: "in_orbits inp \<noteq> []" using h(6) h(2) by auto
    have ok: "inputs_ok s inp" using h(1) by (rule retrieve_inputs_ok)
    have R: "?R = distributed_path env sched s inp ?ids dir c ?w"
      using entry_distributed [OF h(1) ne h(7), of sched dir c] by (simp add: h(2))
    have "isl (result ?R)" using 3 [OF h(1-5)] .
    then obtain e' where e': "result ?R = Inl e'" by (cases "result ?R") auto
    have e'': "result (distributed_path env sched s inp ?ids dir c ?w) = Inl e'"
      using e' unfolding R .
    note dps = distributed_path_stops [OF ok h(8) e'', unfolded h(2) h(3) h(4)]
    from dps obtain tr t n p x q where st:
      "dispatch (distributed_path env sched s inp ?ids dir c ?w) = tr @ [Complete t n]"
      "\<forall>t' \<in> set (completed tr). \<not> isl (task_result env s inp ?ids dir t')"
      "slice ?ids (t_indices t) = p @ x # q"
      "\<forall>y \<in> set p. \<not> isl (process_orbit env orbits om obs (PrecoveryDatabase dir) y)"
      "process_orbit env orbits om obs (PrecoveryDatabase dir) x = Inl e'"
      by (elim exE conjE) blast
    have st1: "dispatch ?R = tr @ [Complete t n]" using st(1) unfolding R .
    have first: "\<exists>tr t n p x q e'.
               dispatch ?R = tr @ [Complete t n] \<and>
               (\<forall>t' \<in> set (completed tr). \<not> isl (task_result env s inp ?ids dir t')) \<and>
               slice ?ids (t_indices t) = p @ x # q \<and>
               (\<forall>y \<in> set p.
                  \<not> isl (process_orbit env orbits om obs (PrecoveryDatabase dir) y)) \<and>
               process_orbit env orbits om obs (PrecoveryDatabase dir) x = Inl e' \<and>
               result ?R = Inl e'"
      by (intro exI conjI) (rule st1, rule st(2), rule st(3), rule st(4), rule st(5), rule e')
    have only: "result ?R = Inl e"
      if rest_ok: "\<forall>y \<in> set rest.
                \<not> isl (process_orbit env orbits om obs (PrecoveryDatabase dir) y)"
    proof -
      have a: "\<forall>x \<in> set pre. \<not> isl (process_orbit env (in_orbits inp) (in_orbit_members inp)
          (in_observations inp) (PrecoveryDatabase dir) x)"
        using pre_ok by (simp add: h(2,3,4))
      have b: "\<forall>x \<in> set rest. \<not> isl (process_orbit env (in_orbits inp)
          (in_orbit_members inp) (in_observations inp) (PrecoveryDatabase dir) x)"
        using rest_ok by (simp add: h(2,3,4))
      have f: "process_orbit env (in_orbits inp) (in_orbit_members inp) (in_observations inp)
          (PrecoveryDatabase dir) oid = Inl e"
        using pf by (simp add: h(2,3,4))
      show ?thesis
        unfolding R by (rule distributed_path_only_failure [OF ok h(8) h(5) h(6) a b f])
    qed
    show ?thesis by (intro conjI impI) (rule first, erule only)
  qed
  have c2: "slice ids ix = pre @ oid # post \<longrightarrow>
            ipod_worker_remote env ids ix orbits om obs dir =
              (DbOpen dir # map (\<lambda>x. IpodCall x (orbit_observations_for env om obs x)) pre @
                 [IpodCall oid (orbit_observations_for env om obs oid), LogError oid e],
               Inl e)"
    by (rule impI) (erule 2)
  have c3: "retrieve_inputs s orbits_in om_in obs_in = Inr inp \<and> in_orbits inp = orbits \<and>
          in_orbit_members inp = om \<and> in_observations inp = obs \<and> 0 < c \<longrightarrow>
            isl (result ?R)"
  proof (rule impI)
    assume H: "retrieve_inputs s orbits_in om_in obs_in = Inr inp \<and> in_orbits inp = orbits \<and>
          in_orbit_members inp = om \<and> in_observations inp = obs \<and> 0 < c"
    show "isl (result ?R)" by (rule 3) (insert H, blast+)
  qed
  have c4: "retrieve_inputs s orbits_in om_in obs_in = Inr inp \<and> in_orbits inp = orbits \<and>
          in_orbit_members inp = om \<and> in_observations inp = obs \<and> 0 < c \<and>
          ?ids = pre @ oid # rest \<and> \<not> initialize_use_ray env ?w \<longrightarrow>
            result ?R = Inl e \<and>
            (\<exists>cs1 p q cs2.
               iterate_chunks ?ids c = cs1 @ (p @ oid # q) # cs2 \<and>
               concat cs1 @ p = pre \<and>
               local_workers ?R =
                 map (\<lambda>ch. (ch, fst (ipod_worker env ch orbits om obs (Inl dir)))) cs1 @
                 [(p @ oid # q,
                   DbOpen dir #
                   map (\<lambda>x. IpodCall x (orbit_observations_for env om obs x)) p @
                   [IpodCall oid (orbit_observations_for env om obs oid), LogError oid e])])"
  proof (rule impI)
    assume H: "retrieve_inputs s orbits_in om_in obs_in = Inr inp \<and> in_orbits inp = orbits \<and>
          in_orbit_members inp = om \<and> in_observations inp = obs \<and> 0 < c \<and>
          ?ids = pre @ oid # rest \<and> \<not> initialize_use_ray env ?w"
    show "result ?R = Inl e \<and>
            (\<exists>cs1 p q cs2.
               iterate_chunks ?ids c = cs1 @ (p @ oid # q) # cs2 \<and>
               concat cs1 @ p = pre \<and>
               local_workers ?R =
                 map (\<lambda>ch. (ch, fst (ipod_worker env ch orbits om obs (Inl dir)))) cs1 @
                 [(p @ oid # q,
                   DbOpen dir #
                   map (\<lambda>x. IpodCall x (orbit_observations_for env om obs x)) p @
                   [IpodCall oid (orbit_observations_for env om obs oid), LogError oid e])])"
      by (rule 4) (insert H, blast+)
  qed
  have c5: "retrieve_inputs s orbits_in om_in obs_in = Inr inp \<and> in_orbits inp = orbits \<and>
          in_orbit_members inp = om \<and> in_observations inp = obs \<and> 0 < c \<and>
          ?ids = pre @ oid # rest \<and> initialize_use_ray env ?w \<and> 0 < ?w \<longrightarrow>
            (\<exists>tr t n p x q e'.
               dispatch ?R = tr @ [Complete t n] \<and>
               (\<forall>t' \<in> set (completed tr). \<not> isl (task_result env s inp ?ids dir t')) \<and>
               slice ?ids (t_indices t) = p @ x # q \<and>
               (\<forall>y \<in> set p.
                  \<not> isl (process_orbit env orbits om obs (PrecoveryDatabase dir) y)) \<and>
               process_orbit env orbits om obs (PrecoveryDatabase dir) x = Inl e' \<and>
               result ?R = Inl e') \<and>
            ((\<forall>y \<in> set rest.
                \<not> isl (process_orbit env orbits om obs (PrecoveryDatabase dir) y)) \<longrightarrow>
               result ?R = Inl e)"
  proof (rule impI)
    assume H: "retrieve_inputs s orbits_in om_in obs_in = Inr inp \<and> in_orbits inp = orbits \<and>
          in_orbit_members inp = om \<and> in_observations inp = obs \<and> 0 < c \<and>
          ?ids = pre @ oid # rest \<and> initialize_use_ray env ?w \<and> 0 < ?w"
    show "(\<exists>tr t n p x q e'.
               dispatch ?R = tr @ [Complete t n] \<and>
               (\<forall>t' \<in> set (completed tr). \<not> isl (task_result env s inp ?ids dir t')) \<and>
               slice ?ids (t_indices t) = p @ x # q \<and>
               (\<forall>y \<in> set p.
                  \<not> isl (process_orbit env orbits om obs (PrecoveryDatabase dir) y)) \<and>
               process_orbit env orbits om obs (PrecoveryDatabase dir) x = Inl e' \<and>
               result ?R = Inl e') \<and>
            ((\<forall>y \<in> set rest.
                \<not> isl (process_orbit env orbits om obs (PrecoveryDatabase dir) y)) \<longrightarrow>
               result ?R = Inl e)"
      by (rule 5) (insert H, blast+)
  qed
  show ?thesis
    by (rule conjI [OF 1 conjI [OF c2 conjI [OF c3 conjI [OF c4 c5]]]])
qed

theorem refinement_failure_aborts_witness:
  "ipod_worker demo_env [''a'', ''bad'', ''c'']
     [demo_orbit ''a'', demo_orbit ''bad'', demo_orbit ''c''] None None (Inl ''index'') =
     ([DbOpen ''index'', IpodCall ''a'' None, IpodCall ''bad'' None,
       LogError ''bad'' (RefinementError ''no convergence'')],
      Inl (RefinementError ''no convergence'')) \<and>
   ipod_worker_remote demo_env [''x'', ''y'', ''a'', ''bad'', ''c''] (2, 5)
     [demo_orbit ''a'', demo_orbit ''bad'', demo_orbit ''c''] None None ''index'' =
     ([DbOpen ''index'', IpodCall ''a'' None, IpodCall ''bad'' None,
       LogError ''bad'' (RefinementError ''no convergence'')],
      Inl (RefinementError ''no convergence'')) \<and>
   isl (result (iterative_precovery_and_differential_correction demo_env (\<lambda>fs. 0) []
     (Value [demo_orbit ''a'', demo_orbit ''bad'', demo_orbit ''c'']) None None ''index'' 2
     (Some 2))) \<and>
   isl (result (iterative_precovery_and_differential_correction demo_env (\<lambda>fs. 0) []
     (Value [demo_orbit ''a'', demo_orbit ''bad'', demo_orbit ''c'']) None None ''index'' 2
     (Some 1))) \<and>
   result (iterative_precovery_and_differential_correction demo_env (\<lambda>fs. 0) []
     (Value [demo_orbit ''a'', demo_orbit ''bad'', demo_orbit ''c'']) None None ''index'' 2
     (Some 1)) = Inl (RefinementError ''no convergence'') \<and>
   local_workers (iterative_precovery_and_differential_correction demo_env (\<lambda>fs. 0) []
     (Value [demo_orbit ''a'', demo_orbit ''bad'', demo_orbit ''c'']) None None ''index'' 2
     (Some 1)) =
     [([''a'', ''bad''],
       [DbOpen ''index'', IpodCall ''a'' None, IpodCall ''bad'' None,
        LogError ''bad'' (RefinementError ''no convergence'')])] \<and>
   iterate_chunks [''a'', ''bad'', ''c''] 2 = [[''a'', ''bad''], [''c'']] \<and>
   result (iterative_precovery_and_differential_correction demo_env (\<lambda>fs. 0) []
     (Value [demo_orbit ''a'', demo_orbit ''bad'', demo_orbit ''c'']) None None ''index'' 2
     (Some 2)) = Inl (RefinementError ''no convergence'') \<and>
   map t_indices (submitted (dispatch (iterative_precovery_and_differential_correction demo_env
     (\<lambda>fs. 0) [] (Value [demo_orbit ''a'', demo_orbit ''bad'', demo_orbit ''c'']) None None
     ''index'' 2 (Some 2)))) = [(0, 2), (2, 3)] \<and>
   map t_indices (completed (dispatch (iterative_precovery_and_differential_correction demo_env
     (\<lambda>fs. 0) [] (Value [demo_orbit ''a'', demo_orbit ''bad'', demo_orbit ''c'']) None None
     ''index'' 2 (Some 2)))) = [(0, 2)]"
proof -
  let ?orbits = "[demo_orbit ''a'', demo_orbit ''bad'', demo_orbit ''c'']"
  let ?e = "RefinementError ''no convergence''"
  let ?R1 = "iterative_precovery_and_differential_correction demo_env (\<lambda>fs. 0) []
     (Value ?orbits) None None ''index'' 2 (Some 1)"
  let ?R2 = "iterative_precovery_and_differential_correction demo_env (\<lambda>fs. 0) []
     (Value ?orbits) None None ''index'' 2 (Some 2)"
  have pre_ok: "\<forall>x \<in> set [''a''].
        process_orbit demo_env ?orbits None None (PrecoveryDatabase ''index'') x =
          Inr (demo_result x)"
    by (simp add: demo_orbit_def process_orbit_def select_def demo_env_def demo_ipod_def
        demo_result_def orbit_observations_for_def)
  have sel: "select ?orbits ''bad'' = Inr [demo_orbit ''bad'']"
    by (simp add: select_def demo_orbit_def)
  have fail: "ipod demo_env [demo_orbit ''bad''] (orbit_observations_for demo_env None None ''bad'')
                (PrecoveryDatabase ''index'') = Inl ?e"
    by (simp add: demo_env_def demo_ipod_def demo_orbit_def)
  note th = refinement_failure_aborts [OF pre_ok sel fail]
  have sl: "slice [''x'', ''y'', ''a'', ''bad'', ''c''] (2, 5) = [''a''] @ ''bad'' # [''c'']"
    by (simp add: slice_def)
  have fields: "in_orbits (demo_inputs ?orbits) = ?orbits"
    "in_orbit_members (demo_inputs ?orbits) = None"
    "in_observations (demo_inputs ?orbits) = None"
    by (simp_all add: demo_inputs_def)
  have ids: "map fo_orbit_id ?orbits = [''a''] @ ''bad'' # [''c'']"
    by (simp add: demo_orbit_def)
  have pos: "0 < (2::nat)" by simp
  have seq: "\<not> initialize_use_ray demo_env (worker_count demo_env (Some 1))"
    by code_simp
  have dist: "initialize_use_ray demo_env (worker_count demo_env (Some 2))"
    "0 < worker_count demo_env (Some 2)"
    by code_simp+
  have rest_ok: "\<forall>y \<in> set [''c''].
      \<not> isl (process_orbit demo_env ?orbits None None (PrecoveryDatabase ''index'') y)"
    by (simp add: demo_orbit_def process_orbit_def select_def demo_env_def demo_ipod_def
        orbit_observations_for_def)
  note th1 = th [of "[''c'']" "[''x'', ''y'', ''a'', ''bad'', ''c'']" "(2, 5)" "[]" "Value ?orbits"
      None None "demo_inputs ?orbits" 2 "\<lambda>fs. 0" "Some 1" "[''c'']"]
  note th2 = th [of "[''c'']" "[''x'', ''y'', ''a'', ''bad'', ''c'']" "(2, 5)" "[]" "Value ?orbits"
      None None "demo_inputs ?orbits" 2 "\<lambda>fs. 0" "Some 2" "[''c'']"]
  have w1: "ipod_worker demo_env [''a'', ''bad'', ''c''] ?orbits None None (Inl ''index'') =
     ([DbOpen ''index'', IpodCall ''a'' None, IpodCall ''bad'' None, LogError ''bad'' ?e],
      Inl ?e)"
    using th1 by (simp add: orbit_observations_for_def)
  have w2: "ipod_worker_remote demo_env [''x'', ''y'', ''a'', ''bad'', ''c''] (2, 5)
     ?orbits None None ''index'' =
     ([DbOpen ''index'', IpodCall ''a'' None, IpodCall ''bad'' None, LogError ''bad'' ?e],
      Inl ?e)"
    using th1 sl by (simp add: orbit_observations_for_def)
  have i2: "isl (result ?R2)"
    using th2 retrieve_demo_inputs [of "[]" ?orbits] fields pos by blast
  have i1: "isl (result ?R1)"
    using th1 retrieve_demo_inputs [of "[]" ?orbits] fields pos by blast
  have r1: "result ?R1 = Inl ?e"
    using th1 retrieve_demo_inputs [of "[]" ?orbits] fields pos ids seq by blast
  have r2: "result ?R2 = Inl ?e"
    using th2 retrieve_demo_inputs [of "[]" ?orbits] fields pos ids dist rest_ok by blast
  have lw: "local_workers ?R1 =
     [([''a'', ''bad''],
       [DbOpen ''index'', IpodCall ''a'' None, IpodCall ''bad'' None, LogError ''bad'' ?e])]"
    by code_simp
  have ch: "iterate_chunks [''a'', ''bad'', ''c''] 2 = [[''a'', ''bad''], [''c'']]"
    by code_simp
  have sb: "map t_indices (submitted (dispatch ?R2)) = [(0, 2), (2, 3)]"
    by code_simp
  have cp: "map t_indices (completed (dispatch ?R2)) = [(0, 2)]"
    by code_simp
  show ?thesis
    by (rule conjI [OF w1 conjI [OF w2 conjI [OF i2 conjI [OF i1 conjI [OF r1 conjI [OF lw
          conjI [OF ch conjI [OF r2 conjI [OF sb cp]]]]]]]]])
qed

text \<open>
  C5. When the orbit table the entry point retrieves is empty, the run returns four empty
  tables; no chunk task is submitted, \<^verbatim>\<open>ipod_worker\<close> is not called (so the refinement
  routine is not invoked), and the object store is as before.
\<close>

theorem empty_input:
  assumes "retrieve_inputs s orbits orbit_members observations = Inr inp"
    and "in_orbits inp = []"
  shows "iterative_precovery_and_differential_correction env sched s orbits orbit_members
           observations dir c mp =
         \<lparr>result = Inr \<lparr>ipod_orbits = [], ipod_orbits_members = [],
                         ipod_precovery_candidates = [], ipod_summary = []\<rparr>,
          store = s, placed = [], freed = [], dispatch = [], local_workers = []\<rparr>"
  using entry_empty [OF assms] by (simp add: empty_batch_def)

theorem empty_input_witness:
  "iterative_precovery_and_differential_correction demo_env (\<lambda>fs. 0) [] (Value [])
     (Some (Value [\<lparr>fm_orbit_id = ''a'', fm_obs_id = ''o1''\<rparr>])) None ''index'' 10 (Some 4) =
   \<lparr>result = Inr \<lparr>ipod_orbits = [], ipod_orbits_members = [],
                   ipod_precovery_candidates = [], ipod_summary = []\<rparr>,
    store = [], placed = [], freed = [], dispatch = [], local_workers = []\<rparr>"
proof -
  have inp: "retrieve_inputs [] (Value [])
      (Some (Value [\<lparr>fm_orbit_id = ''a'', fm_obs_id = ''o1''\<rparr>])) None =
      Inr \<lparr>in_orbits = [], in_orbits_ref = None,
           in_orbit_members = Some [\<lparr>fm_orbit_id = ''a'', fm_obs_id = ''o1''\<rparr>],
           in_orbit_members_ref = None, in_observations = None, in_observations_ref = None\<rparr>"
    by (simp add: retrieve_inputs_def)
  show ?thesis
    by (rule empty_input [OF inp]) simp
qed

text \<open>
  C7. On inputs for which no refinement call fails, every run on the distributed path
  (whatever the order \<open>sched\<close> in which tasks complete, whatever the worker count and
  the chunk size) and every run on the sequential path succeed, and their four result
  tables hold the same rows, as multisets.
\<close>

theorem paths_agree:
  assumes inp: "retrieve_inputs s orbits orbit_members observations = Inr inp"
    and no_failure: "\<forall>oid \<in> set (map fo_orbit_id (in_orbits inp)).
        \<not> isl (process_orbit env (in_orbits inp) (in_orbit_members inp) (in_observations inp)
                 (PrecoveryDatabase dir) oid)"
    and d1: "initialize_use_ray env (worker_count env mp1)" "0 < worker_count env mp1" "0 < c1"
    and d2: "initialize_use_ray env (worker_count env mp2)" "0 < worker_count env mp2" "0 < c2"
    and s3: "\<not> initialize_use_ray env (worker_count env mp3)" "0 < c3"
  shows "\<exists>b1 b2 b3.
           result (iterative_precovery_and_differential_correction env sched1 s orbits
                     orbit_members observations dir c1 mp1) = Inr b1 \<and>
           result (iterative_precovery_and_differential_correction env sched2 s orbits
                     orbit_members observations dir c2 mp2) = Inr b2 \<and>
           result (iterative_precovery_and_differential_correction env sched3 s orbits
                     orbit_members observations dir c3 mp3) = Inr b3 \<and>
           same_rows b1 b3 \<and> same_rows b2 b3 \<and> same_rows b1 b2"
proof (cases "in_orbits inp = []")
  case True
  show ?thesis
    using entry_empty [OF inp True] by (simp add: same_rows_def)
next
  case False
  let ?ids = "map fo_orbit_id (in_orbits inp)"
  define gi where "gi = (\<lambda>oid. projr (process_orbit env (in_orbits inp) (in_orbit_members inp)
      (in_observations inp) (PrecoveryDatabase dir) oid))"
  have all: "\<forall>oid \<in> set ?ids. process_orbit env (in_orbits inp) (in_orbit_members inp)
       (in_observations inp) (PrecoveryDatabase dir) oid = Inr (gi oid)"
    using no_failure not_isl_Inr by (auto simp: gi_def)
  have ok: "inputs_ok s inp" using inp by (rule retrieve_inputs_ok)
  have ne: "?ids \<noteq> []" using False by simp
  obtain b1 where b1: "result (distributed_path env sched1 s inp ?ids dir c1
      (worker_count env mp1)) = Inr b1"
    using distributed_path_total [OF ok all d1(2)] by blast
  obtain b2 where b2: "result (distributed_path env sched2 s inp ?ids dir c2
      (worker_count env mp2)) = Inr b2"
    using distributed_path_total [OF ok all d2(2)] by blast
  have r1: "mset (p b1) = mset (concat (map (p \<circ> gi) ?ids))"
    if "\<And>a b. p (merge_batch a b) = p a @ p b" "p empty_batch = []" for p :: "batch \<Rightarrow> 'a list"
    using distributed_path_rows [of p, OF that ok all d1(2) d1(3) ne b1] .
  have r2: "mset (p b2) = mset (concat (map (p \<circ> gi) ?ids))"
    if "\<And>a b. p (merge_batch a b) = p a @ p b" "p empty_batch = []" for p :: "batch \<Rightarrow> 'a list"
    using distributed_path_rows [of p, OF that ok all d2(2) d2(3) ne b2] .
  obtain b3 where b3: "result (sequential_path env s inp ?ids dir c3) = Inr b3"
    using sequential_path_rows [of ipod_orbits, OF merge_batch_rows(1) empty_batch_rows(1) all s3(2)]
    by blast
  have r3: "p b3 = concat (map (p \<circ> gi) ?ids)"
    if "\<And>a b. p (merge_batch a b) = p a @ p b" "p empty_batch = []" for p :: "batch \<Rightarrow> 'a list"
    using sequential_path_rows [of p, OF that all s3(2), of s] b3 by auto
  have "same_rows b1 b3" "same_rows b2 b3" "same_rows b1 b2"
    unfolding same_rows_def
    by (simp_all add: r1 r2 r3 merge_batch_rows empty_batch_rows)
  then show ?thesis
    using b1 b2 b3
    by (simp add: entry_distributed [OF inp False d1(1)] entry_distributed [OF inp False d2(1)]
        entry_sequential [OF inp False s3(1)])
qed

theorem paths_agree_witness:
  "result (iterative_precovery_and_differential_correction demo_env (\<lambda>fs. 0) []
     (Value [demo_orbit ''a'', demo_orbit ''b'', demo_orbit ''c'']) None None ''index'' 1 (Some 2))
     = Inr (foldl merge_batch empty_batch [demo_result ''a'', demo_result ''b'', demo_result ''c''])
   \<and>
   result (iterative_precovery_and_differential_correction demo_env (\<lambda>fs. length fs - 1) []
     (Value [demo_orbit ''a'', demo_orbit ''b'', demo_orbit ''c'']) None None ''index'' 2 (Some 3))
     = Inr (foldl merge_batch empty_batch [demo_result ''c'', demo_result ''b'', demo_result ''a''])
   \<and>
   result (iterative_precovery_and_differential_correction demo_env (\<lambda>fs. 0) []
     (Value [demo_orbit ''a'', demo_orbit ''b'', demo_orbit ''c'']) None None ''index'' 10 (Some 1))
     = Inr (foldl merge_batch empty_batch [demo_result ''a'', demo_result ''b'', demo_result ''c''])
   \<and>
   same_rows
     (foldl merge_batch empty_batch [demo_result ''c'', demo_result ''b'', demo_result ''a''])
     (foldl merge_batch empty_batch [demo_result ''a'', demo_result ''b'', demo_result ''c''])"
proof -
  let ?orbits = "[demo_orbit ''a'', demo_orbit ''b'', demo_orbit ''c'']"
  have nf: "\<forall>oid \<in> set (map fo_orbit_id (in_orbits (demo_inputs ?orbits))).
        \<not> isl (process_orbit demo_env (in_orbits (demo_inputs ?orbits))
                 (in_orbit_members (demo_inputs ?orbits))
                 (in_observations (demo_inputs ?orbits)) (PrecoveryDatabase ''index'') oid)"
    by (simp add: demo_inputs_def demo_orbit_def process_orbit_def select_def demo_env_def
        demo_ipod_def)
  have w: "initialize_use_ray demo_env (worker_count demo_env (Some 2))"
      "0 < worker_count demo_env (Some 2)"
      "initialize_use_ray demo_env (worker_count demo_env (Some 3))"
      "0 < worker_count demo_env (Some 3)"
      "\<not> initialize_use_ray demo_env (worker_count demo_env (Some 1))"
    by (simp_all add: demo_env_def worker_count_def)
  have v1: "result (iterative_precovery_and_differential_correction demo_env (\<lambda>fs. 0) []
     (Value ?orbits) None None ''index'' 1 (Some 2))
     = Inr (foldl merge_batch empty_batch [demo_result ''a'', demo_result ''b'', demo_result ''c''])"
    by code_simp
  have v2: "result (iterative_precovery_and_differential_correction demo_env
     (\<lambda>fs. length fs - 1) [] (Value ?orbits) None None ''index'' 2 (Some 3))
     = Inr (foldl merge_batch empty_batch [demo_result ''c'', demo_result ''b'', demo_result ''a''])"
    by code_simp
  have v3: "result (iterative_precovery_and_differential_correction demo_env (\<lambda>fs. 0) []
     (Value ?orbits) None None ''index'' 10 (Some 1))
     = Inr (foldl merge_batch empty_batch [demo_result ''a'', demo_result ''b'', demo_result ''c''])"
    by code_simp
  have c: "0 < (1::nat)" "0 < (2::nat)" "0 < (10::nat)"
    by simp_all
  show ?thesis
    using paths_agree [OF retrieve_demo_inputs nf w(1,2) c(1) w(3,4) c(2) w(5) c(3),
        of "\<lambda>fs. 0" "[]" "\<lambda>fs. length fs - 1" "\<lambda>fs. 0"]
    unfolding v1 v2 v3 by simp
qed

text \<open>
  C1. For a run on a non-empty orbit table with \<open>N\<close> identifiers, worker count
  \<open>W \<ge> 1\<close> and nominal chunk size \<open>C\<close>, where \<^verbatim>\<open>initialize_use_ray\<close> declines the
  distributed runtime for a worker count of at most one only: on the distributed path
  the tasks are submitted, in order, for the ranges of the partition with chunk size
  \<open>min (\<lceil>N / W\<rceil>) C\<close>, and on the sequential path \<^verbatim>\<open>ipod_worker\<close> is called, in order,
  on the chunks of the partition with that same chunk size (all of them when the run
  succeeds, a prefix when it is aborted). The sequential path passes the nominal chunk
  size to the planner; it is taken for \<open>W = 1\<close> only, where \<open>\<lceil>N / W\<rceil> = N\<close> and the two
  chunk sizes give the same partition.
\<close>

theorem chunk_planning:
  assumes inp: "retrieve_inputs s orbits orbit_members observations = Inr inp"
    and ne: "in_orbits inp \<noteq> []"
    and r: "r = iterative_precovery_and_differential_correction env sched s orbits orbit_members
                  observations dir c mp"
    and ids: "ids = map fo_orbit_id (in_orbits inp)"
    and w: "w = worker_count env mp"
    and pos: "0 < w"
    and runtime: "initialize_use_ray env w \<or> w \<le> 1"
  shows "(initialize_use_ray env w \<longrightarrow>
            prefix (map t_indices (submitted (dispatch r)))
              (iterate_chunk_indices ids (min (nat \<lceil>real (length ids) / real w\<rceil>) c)) \<and>
            (\<not> isl (result r) \<longrightarrow>
               map t_indices (submitted (dispatch r)) =
                 iterate_chunk_indices ids (min (nat \<lceil>real (length ids) / real w\<rceil>) c))) \<and>
         (\<not> initialize_use_ray env w \<longrightarrow>
            prefix (map fst (local_workers r))
              (iterate_chunks ids (min (nat \<lceil>real (length ids) / real w\<rceil>) c)) \<and>
            (\<not> isl (result r) \<longrightarrow>
               map fst (local_workers r) =
                 iterate_chunks ids (min (nat \<lceil>real (length ids) / real w\<rceil>) c)))"
proof -
  have dist: "prefix (map t_indices (submitted (dispatch r)))
              (iterate_chunk_indices ids (min (nat \<lceil>real (length ids) / real w\<rceil>) c)) \<and>
            (\<not> isl (result r) \<longrightarrow>
               map t_indices (submitted (dispatch r)) =
                 iterate_chunk_indices ids (min (nat \<lceil>real (length ids) / real w\<rceil>) c))"
    if use_ray: "initialize_use_ray env w"
  proof -
    let ?get = "task_result env s inp ids dir"
    let ?d = "dispatch_all sched ?get w (planned_tasks s inp ids c w)"
    have rd: "r = distributed_path env sched s inp ids dir c w"
      using entry_distributed [OF inp ne, of env mp sched dir c] use_ray
      by (simp add: r ids w)
    have d: "dispatch r = fst ?d" "result r = snd ?d"
      by (simp_all add: rd distributed_path_dispatch [OF pos] distributed_path_result [OF pos])
    have "prefix (map t_indices (submitted (fst ?d)))
            (map t_indices (planned_tasks s inp ids c w))"
      using dispatch_all_submitted_prefix [of sched ?get w "planned_tasks s inp ids c w"]
      by (rule map_mono_prefix)
    moreover have "map t_indices (submitted (fst ?d)) =
            map t_indices (planned_tasks s inp ids c w)" if ok: "\<not> isl (snd ?d)"
    proof -
      obtain totals where "snd ?d = Inr totals" using ok by (cases "snd ?d") auto
      then show ?thesis using dispatch_all_submitted_all by simp
    qed
    ultimately show ?thesis
      by (simp add: d planned_tasks_indices [OF pos])
  qed
  have seq: "prefix (map fst (local_workers r))
              (iterate_chunks ids (min (nat \<lceil>real (length ids) / real w\<rceil>) c)) \<and>
            (\<not> isl (result r) \<longrightarrow>
               map fst (local_workers r) =
                 iterate_chunks ids (min (nat \<lceil>real (length ids) / real w\<rceil>) c))"
    if no_ray: "\<not> initialize_use_ray env w"
  proof -
    have w1: "w = 1" using runtime no_ray pos by simp
    have eff: "iterate_chunks ids (min (nat \<lceil>real (length ids) / real w\<rceil>) c) =
               iterate_chunks ids c"
      unfolding w1 by (rule iterate_chunks_single_worker [symmetric])
    have rs: "r = sequential_path env s inp ids dir c"
      using entry_sequential [OF inp ne, of env mp sched dir c] no_ray
      by (simp add: r ids w)
    have "map fst (local_workers r) = iterate_chunks ids c" if ok: "\<not> isl (result r)"
    proof -
      obtain totals where "result r = Inr totals" using ok by (cases "result r") auto
      then show ?thesis
        using sequential_loop_all [of env inp dir "iterate_chunks ids c" empty_batch totals]
        by (simp add: rs sequential_path_local)
    qed
    then show ?thesis
      unfolding eff by (simp add: rs sequential_path_local(1) sequential_loop_prefix)
  qed
  show ?thesis using dist seq by blast
qed

theorem chunk_planning_witness:
  "map t_indices (submitted (dispatch (iterative_precovery_and_differential_correction demo_env
     (\<lambda>fs. 0) []
     (Value [demo_orbit ''a'', demo_orbit ''b'', demo_orbit ''c'', demo_orbit ''d'',
             demo_orbit ''e''])
     None None ''index'' 2 (Some 2)))) = [(0, 2), (2, 4), (4, 5)] \<and>
   min (nat \<lceil>real (length [''a'', ''b'', ''c'', ''d'', ''e'']) / real (2::nat)\<rceil>) 2 = 2 \<and>
   map fst (local_workers (iterative_precovery_and_differential_correction demo_env
     (\<lambda>fs. 0) []
     (Value [demo_orbit ''a'', demo_orbit ''b'', demo_orbit ''c'', demo_orbit ''d'',
             demo_orbit ''e''])
     None None ''index'' 2 (Some 1))) = [[''a'', ''b''], [''c'', ''d''], [''e'']] \<and>
   min (nat \<lceil>real (length [''a'', ''b'', ''c'', ''d'', ''e'']) / real (1::nat)\<rceil>) 2 = 2"
proof -
  let ?orbits = "[demo_orbit ''a'', demo_orbit ''b'', demo_orbit ''c'', demo_orbit ''d'',
                  demo_orbit ''e'']"
  let ?r2 = "iterative_precovery_and_differential_correction demo_env (\<lambda>fs. 0) []
     (Value ?orbits) None None ''index'' 2 (Some 2)"
  let ?r1 = "iterative_precovery_and_differential_correction demo_env (\<lambda>fs. 0) []
     (Value ?orbits) None None ''index'' 2 (Some 1)"
  have ne: "in_orbits (demo_inputs ?orbits) \<noteq> []"
    by (simp add: demo_inputs_def)
  have ids: "map fo_orbit_id (in_orbits (demo_inputs ?orbits)) = [''a'', ''b'', ''c'', ''d'', ''e'']"
    by (simp add: demo_inputs_def demo_orbit_def)
  have w: "worker_count demo_env (Some 2) = 2" "worker_count demo_env (Some 1) = 1"
      "initialize_use_ray demo_env 2" "\<not> initialize_use_ray demo_env 1"
    by (simp_all add: worker_count_def demo_env_def)
  have pos: "0 < worker_count demo_env (Some 2)" "0 < worker_count demo_env (Some 1)"
    by (simp_all add: worker_count_def)
  have rt: "initialize_use_ray demo_env (worker_count demo_env (Some 2)) \<or>
            worker_count demo_env (Some 2) \<le> 1"
      "initialize_use_ray demo_env (worker_count demo_env (Some 1)) \<or>
            worker_count demo_env (Some 1) \<le> 1"
    by (simp_all add: worker_count_def demo_env_def)
  have e2: "min (nat \<lceil>real (length [''a'', ''b'', ''c'', ''d'', ''e'']) / real (2::nat)\<rceil>) 2 = 2"
    by (subst ceil_div) simp_all
  have e1: "min (nat \<lceil>real (length [''a'', ''b'', ''c'', ''d'', ''e'']) / real (1::nat)\<rceil>) 2 = 2"
    by (subst ceil_div) simp_all
  have ok2: "\<not> isl (result ?r2)" by code_simp
  have ok1: "\<not> isl (result ?r1)" by code_simp
  have d: "map t_indices (submitted (dispatch ?r2)) =
     iterate_chunk_indices [''a'', ''b'', ''c'', ''d'', ''e'']
       (min (nat \<lceil>real (length [''a'', ''b'', ''c'', ''d'', ''e'']) / real (2::nat)\<rceil>) 2)"
    using chunk_planning [OF retrieve_demo_inputs ne refl refl refl pos(1) rt(1),
        of "\<lambda>fs. 0" "[]" "''index''" 2] ok2 w(3)
    unfolding ids w(1) by blast
  have q: "map fst (local_workers ?r1) =
     iterate_chunks [''a'', ''b'', ''c'', ''d'', ''e'']
       (min (nat \<lceil>real (length [''a'', ''b'', ''c'', ''d'', ''e'']) / real (1::nat)\<rceil>) 2)"
    using chunk_planning [OF retrieve_demo_inputs ne refl refl refl pos(2) rt(2),
        of "\<lambda>fs. 0" "[]" "''index''" 2] ok1 w(4)
    unfolding ids w(2) by blast
  have v1: "iterate_chunk_indices [''a'', ''b'', ''c'', ''d'', ''e''] 2 = [(0, 2), (2, 4), (4, 5)]"
    by (simp add: iterate_chunk_indices_def iterate_chunk_indices_from.simps)
  have v2: "iterate_chunks [''a'', ''b'', ''c'', ''d'', ''e''] 2 =
     [[''a'', ''b''], [''c'', ''d''], [''e'']]"
    by (simp add: iterate_chunks_def iterate_chunk_indices_def slice_def
        iterate_chunk_indices_from.simps)
  show ?thesis using d q e1 e2 unfolding e1 e2 v1 v2 by blast
qed

text \<open>
  C4. In every run, around every event of the submission and drain loops at most
  \<open>\<lceil>1.5 W\<rceil>\<close> tasks are outstanding, and every submission is made while fewer than
  \<open>1.5 W\<close> tasks are outstanding: a submission that brings the count to \<open>1.5 W\<close> or
  more is followed at once by a wait for one completion. Every completion is merged: when
  a run on the distributed path returns, each submitted task has completed once, and each
  of the four tables returned is the concatenation, in the order of completion, of that
  table in the batches that \<^verbatim>\<open>ray.get\<close> delivered for the completed tasks.
\<close>

theorem bounded_in_flight:
  "(\<forall>ev \<in> set (dispatch (iterative_precovery_and_differential_correction env sched s orbits
                          orbit_members observations dir c mp)).
      int (outstanding ev) \<le> \<lceil>1.5 * real (worker_count env mp)\<rceil>) \<and>
   (\<forall>t n. Submit t n \<in> set (dispatch (iterative_precovery_and_differential_correction env
                          sched s orbits orbit_members observations dir c mp)) \<longrightarrow>
      real n < 1.5 * real (worker_count env mp)) \<and>
   waits_at_threshold (worker_count env mp)
     (dispatch (iterative_precovery_and_differential_correction env sched s orbits
                  orbit_members observations dir c mp)) \<and>
   (retrieve_inputs s orbits orbit_members observations = Inr inp \<and> in_orbits inp \<noteq> [] \<and>
    initialize_use_ray env (worker_count env mp) \<and>
    result (iterative_precovery_and_differential_correction env sched s orbits orbit_members
              observations dir c mp) = Inr totals \<longrightarrow>
      mset (completed (dispatch (iterative_precovery_and_differential_correction env sched s
                                   orbits orbit_members observations dir c mp))) =
        mset (submitted (dispatch (iterative_precovery_and_differential_correction env sched s
                                     orbits orbit_members observations dir c mp))) \<and>
      ipod_orbits totals =
        concat (map (\<lambda>t. ipod_orbits (projr (task_result env s inp
                                                (map fo_orbit_id (in_orbits inp)) dir t)))
                  (completed (dispatch (iterative_precovery_and_differential_correction env
                     sched s orbits orbit_members observations dir c mp)))) \<and>
      ipod_orbits_members totals =
        concat (map (\<lambda>t. ipod_orbits_members (projr (task_result env s inp
                                                (map fo_orbit_id (in_orbits inp)) dir t)))
                  (completed (dispatch (iterative_precovery_and_differential_correction env
                     sched s orbits orbit_members observations dir c mp)))) \<and>
      ipod_precovery_candidates totals =
        concat (map (\<lambda>t. ipod_precovery_candidates (projr (task_result env s inp
                                                (map fo_orbit_id (in_orbits inp)) dir t)))
                  (completed (dispatch (iterative_precovery_and_differential_correction env
                     sched s orbits orbit_members observations dir c mp)))) \<and>
      ipod_summary totals =
        concat (map (\<lambda>t. ipod_summary (projr (task_result env s inp
                                                (map fo_orbit_id (in_orbits inp)) dir t)))
                  (completed (dispatch (iterative_precovery_and_differential_correction env
                     sched s orbits orbit_members observations dir c mp)))))"
proof -
  let ?r = "iterative_precovery_and_differential_correction env sched s orbits orbit_members
              observations dir c mp"
  let ?w = "worker_count env mp"
  let ?ids = "map fo_orbit_id (in_orbits inp)"
  consider "dispatch ?r = []"
    | get tasks where "0 < ?w" "dispatch ?r = fst (dispatch_all sched get ?w tasks)"
    using entry_dispatch_cases [of env sched s orbits orbit_members observations dir c mp]
    by blast
  then have bound: "(\<forall>ev \<in> set (dispatch ?r). int (outstanding ev) \<le> \<lceil>1.5 * real ?w\<rceil>) \<and>
      (\<forall>t n. Submit t n \<in> set (dispatch ?r) \<longrightarrow> real n < 1.5 * real ?w) \<and>
      waits_at_threshold ?w (dispatch ?r)"
  proof cases
    case 1
    then show ?thesis by simp
  next
    case 2
    note b = dispatch_all_bound [OF 2(1), of sched get tasks]
    have "int (outstanding ev) \<le> \<lceil>1.5 * real ?w\<rceil>" if "ev \<in> set (dispatch ?r)" for ev
    proof -
      have "2 * outstanding ev < 3 * ?w + 2" using that b unfolding 2(2) by blast
      then show ?thesis by (rule within_ceiling)
    qed
    moreover have "real n < 1.5 * real ?w" if "Submit t n \<in> set (dispatch ?r)" for t n
    proof -
      have "2 * n < 3 * ?w" using that b unfolding 2(2) by blast
      then show ?thesis by (rule below_threshold)
    qed
    moreover have "waits_at_threshold ?w (dispatch ?r)"
      unfolding 2(2) by (rule dispatch_all_waits)
    ultimately show ?thesis by blast
  qed
  have merged: "mset (completed (dispatch ?r)) = mset (submitted (dispatch ?r)) \<and>
      ipod_orbits totals =
        concat (map (\<lambda>t. ipod_orbits (projr (task_result env s inp ?ids dir t)))
                  (completed (dispatch ?r))) \<and>
      ipod_orbits_members totals =
        concat (map (\<lambda>t. ipod_orbits_members (projr (task_result env s inp ?ids dir t)))
                  (completed (dispatch ?r))) \<and>
      ipod_precovery_candidates totals =
        concat (map (\<lambda>t. ipod_precovery_candidates (projr (task_result env s inp ?ids dir t)))
                  (completed (dispatch ?r))) \<and>
      ipod_summary totals =
        concat (map (\<lambda>t. ipod_summary (projr (task_result env s inp ?ids dir t)))
                  (completed (dispatch ?r)))"
    if h: "retrieve_inputs s orbits orbit_members observations = Inr inp"
      "in_orbits inp \<noteq> []" "initialize_use_ray env ?w" "result ?r = Inr totals"
  proof (intro conjI)
    show "mset (completed (dispatch ?r)) = mset (submitted (dispatch ?r))"
      by (rule entry_merged(2) [of ipod_orbits, OF merge_batch_rows(1) empty_batch_rows(1) h])
    show "ipod_orbits totals =
        concat (map (\<lambda>t. ipod_orbits (projr (task_result env s inp ?ids dir t)))
                  (completed (dispatch ?r)))"
      by (rule entry_merged(1) [of ipod_orbits, OF merge_batch_rows(1) empty_batch_rows(1) h])
    show "ipod_orbits_members totals =
        concat (map (\<lambda>t. ipod_orbits_members (projr (task_result env s inp ?ids dir t)))
                  (completed (dispatch ?r)))"
      by (rule entry_merged(1) [of ipod_orbits_members, OF merge_batch_rows(2)
            empty_batch_rows(2) h])
    show "ipod_precovery_candidates totals =
        concat (map (\<lambda>t. ipod_precovery_candidates (projr (task_result env s inp ?ids dir t)))
                  (completed (dispatch ?r)))"
      by (rule entry_merged(1) [of ipod_precovery_candidates, OF merge_batch_rows(3)
            empty_batch_rows(3) h])
    show "ipod_summary totals =
        concat (map (\<lambda>t. ipod_summary (projr (task_result env s inp ?ids dir t)))
                  (completed (dispatch ?r)))"
      by (rule entry_merged(1) [of ipod_summary, OF merge_batch_rows(4) empty_batch_rows(4) h])
  qed
  have imp: "retrieve_inputs s orbits orbit_members observations = Inr inp \<and>
      in_orbits inp \<noteq> [] \<and> initialize_use_ray env ?w \<and> result ?r = Inr totals \<longrightarrow>
      mset (completed (dispatch ?r)) = mset (submitted (dispatch ?r)) \<and>
      ipod_orbits totals =
        concat (map (\<lambda>t. ipod_orbits (projr (task_result env s inp ?ids dir t)))
                  (completed (dispatch ?r))) \<and>
      ipod_orbits_members totals =
        concat (map (\<lambda>t. ipod_orbits_members (projr (task_result env s inp ?ids dir t)))
                  (completed (dispatch ?r))) \<and>
      ipod_precovery_candidates totals =
        concat (map (\<lambda>t. ipod_precovery_candidates (projr (task_result env s inp ?ids dir t)))
                  (completed (dispatch ?r))) \<and>
      ipod_summary totals =
        concat (map (\<lambda>t. ipod_summary (projr (task_result env s inp ?ids dir t)))
                  (completed (dispatch ?r)))"
  proof (rule impI)
    assume H: "retrieve_inputs s orbits orbit_members observations = Inr inp \<and>
      in_orbits inp \<noteq> [] \<and> initialize_use_ray env ?w \<and> result ?r = Inr totals"
    show "mset (completed (dispatch ?r)) = mset (submitted (dispatch ?r)) \<and>
      ipod_orbits totals =
        concat (map (\<lambda>t. ipod_orbits (projr (task_result env s inp ?ids dir t)))
                  (completed (dispatch ?r))) \<and>
      ipod_orbits_members totals =
        concat (map (\<lambda>t. ipod_orbits_members (projr (task_result env s inp ?ids dir t)))
                  (completed (dispatch ?r))) \<and>
      ipod_precovery_candidates totals =
        concat (map (\<lambda>t. ipod_precovery_candidates (projr (task_result env s inp ?ids dir t)))
                  (completed (dispatch ?r))) \<and>
      ipod_summary totals =
        concat (map (\<lambda>t. ipod_summary (projr (task_result env s inp ?ids dir t)))
                  (completed (dispatch ?r)))"
      by (rule merged) (insert H, blast+)
  qed
  have b1: "\<forall>ev \<in> set (dispatch ?r). int (outstanding ev) \<le> \<lceil>1.5 * real ?w\<rceil>"
    using bound by (rule conjunct1)
  have b2: "\<forall>t n. Submit t n \<in> set (dispatch ?r) \<longrightarrow> real n < 1.5 * real ?w"
    using bound by (elim conjE)
  have b3: "waits_at_threshold ?w (dispatch ?r)"
    using bound by (elim conjE)
  show ?thesis
    by (rule conjI [OF b1 conjI [OF b2 conjI [OF b3 imp]]])
qed

theorem bounded_in_flight_witness:
  "map outstanding (dispatch (iterative_precovery_and_differential_correction demo_env
     (\<lambda>fs. 0) []
     (Value [demo_orbit ''a'', demo_orbit ''b'', demo_orbit ''c'', demo_orbit ''d'',
             demo_orbit ''e''])
     None None ''index'' 2 (Some 2))) = [1, 2, 3, 3, 2, 1] \<and>
   \<lceil>1.5 * real (worker_count demo_env (Some 2))\<rceil> = 3 \<and>
   list_all (\<lambda>k. int k \<le> \<lceil>1.5 * real (worker_count demo_env (Some 2))\<rceil>) [1, 2, 3, 3, 2, 1] \<and>
   map t_indices (completed (dispatch (iterative_precovery_and_differential_correction demo_env
     (\<lambda>fs. 0) []
     (Value [demo_orbit ''a'', demo_orbit ''b'', demo_orbit ''c'', demo_orbit ''d'',
             demo_orbit ''e''])
     None None ''index'' 2 (Some 2)))) = [(0, 2), (2, 4), (4, 5)] \<and>
   map (\<lambda>t. ipod_orbits (projr (task_result demo_env []
         (demo_inputs [demo_orbit ''a'', demo_orbit ''b'', demo_orbit ''c'', demo_orbit ''d'',
                       demo_orbit ''e''])
         [''a'', ''b'', ''c'', ''d'', ''e''] ''index'' t)))
     (completed (dispatch (iterative_precovery_and_differential_correction demo_env
       (\<lambda>fs. 0) []
       (Value [demo_orbit ''a'', demo_orbit ''b'', demo_orbit ''c'', demo_orbit ''d'',
               demo_orbit ''e''])
       None None ''index'' 2 (Some 2)))) =
     [[demo_orbit ''a'', demo_orbit ''b''], [demo_orbit ''c'', demo_orbit ''d''],
      [demo_orbit ''e'']] \<and>
   ipod_orbits (projr (result (iterative_precovery_and_differential_correction demo_env
     (\<lambda>fs. 0) []
     (Value [demo_orbit ''a'', demo_orbit ''b'', demo_orbit ''c'', demo_orbit ''d'',
             demo_orbit ''e''])
     None None ''index'' 2 (Some 2)))) =
     [demo_orbit ''a'', demo_orbit ''b'', demo_orbit ''c'', demo_orbit ''d'', demo_orbit ''e'']"
proof -
  let ?orbits = "[demo_orbit ''a'', demo_orbit ''b'', demo_orbit ''c'', demo_orbit ''d'',
             demo_orbit ''e'']"
  let ?r = "iterative_precovery_and_differential_correction demo_env
     (\<lambda>fs. 0) [] (Value ?orbits) None None ''index'' 2 (Some 2)"
  have v: "map outstanding (dispatch ?r) = [1, 2, 3, 3, 2, 1]"
    by code_simp
  have ci: "map t_indices (completed (dispatch ?r)) = [(0, 2), (2, 4), (4, 5)]"
    by code_simp
  have ids: "map fo_orbit_id (in_orbits (demo_inputs ?orbits)) = [''a'', ''b'', ''c'', ''d'', ''e'']"
    by code_simp
  have parts: "map (\<lambda>t. ipod_orbits (projr (task_result demo_env [] (demo_inputs ?orbits)
         [''a'', ''b'', ''c'', ''d'', ''e''] ''index'' t))) (completed (dispatch ?r)) =
     [[demo_orbit ''a'', demo_orbit ''b''], [demo_orbit ''c'', demo_orbit ''d''],
      [demo_orbit ''e'']]"
    by code_simp
  have ne: "in_orbits (demo_inputs ?orbits) \<noteq> []"
    by (simp add: demo_inputs_def)
  have rt: "initialize_use_ray demo_env (worker_count demo_env (Some 2))"
    by code_simp
  have res: "result ?r = Inr (projr (result ?r))"
  proof -
    have "\<not> isl (result ?r)" by code_simp
    then show ?thesis by simp
  qed
  note th = bounded_in_flight [of demo_env "\<lambda>fs. 0" "[]" "Value ?orbits" None None "''index''" 2
      "Some 2" "demo_inputs ?orbits" "projr (result ?r)"]
  have "\<forall>k \<in> set (map outstanding (dispatch ?r)).
          int k \<le> \<lceil>1.5 * real (worker_count demo_env (Some 2))\<rceil>"
    using th by simp
  then have la: "list_all (\<lambda>k. int k \<le> \<lceil>1.5 * real (worker_count demo_env (Some 2))\<rceil>)
               [1, 2, 3, 3, 2, 1]"
    unfolding v by (simp only: list_all_iff)
  have ce: "\<lceil>1.5 * real (worker_count demo_env (Some 2))\<rceil> = 3"
    by (simp add: worker_count_def)
  have "ipod_orbits (projr (result ?r)) =
      concat (map (\<lambda>t. ipod_orbits (projr (task_result demo_env [] (demo_inputs ?orbits)
         (map fo_orbit_id (in_orbits (demo_inputs ?orbits))) ''index'' t)))
        (completed (dispatch ?r)))"
    using th retrieve_demo_inputs [of "[]" ?orbits] ne rt res by blast
  then have tot: "ipod_orbits (projr (result ?r)) = ?orbits"
    unfolding ids parts by simp
  show ?thesis
    by (rule conjI [OF v conjI [OF ce conjI [OF la conjI [OF ci conjI [OF parts tot]]]]])
qed

text \<open>
  C8. In every run each of the three tables (orbits, orbit members, observations) is
  placed into the object store at most once. When the caller supplied a reference for a
  table, the run places no object of that kind, every submitted chunk task carries that
  very reference, and the table is read back from the store for the local computation: on
  the sequential path the run is the run on the value stored under the reference.
\<close>

theorem placement_once:
  assumes r: "r = iterative_precovery_and_differential_correction env sched s orbits
                    orbit_members observations dir c mp"
  shows "length (filter (is_ObjOrbits \<circ> snd) (placed r)) \<le> 1 \<and>
         length (filter (is_ObjOrbitMembers \<circ> snd) (placed r)) \<le> 1 \<and>
         length (filter (is_ObjObservations \<circ> snd) (placed r)) \<le> 1 \<and>
         (orbits = Reference ref \<longrightarrow>
            filter (is_ObjOrbits \<circ> snd) (placed r) = [] \<and>
            (\<forall>t \<in> set (submitted (dispatch r)). t_orbits t = ref) \<and>
            (\<forall>tbl. get_orbits s ref = Inr tbl \<and>
                   \<not> initialize_use_ray env (worker_count env mp) \<longrightarrow>
               r = iterative_precovery_and_differential_correction env sched s (Value tbl)
                     orbit_members observations dir c mp)) \<and>
         (orbit_members = Some (Reference ref) \<longrightarrow>
            filter (is_ObjOrbitMembers \<circ> snd) (placed r) = [] \<and>
            (\<forall>t \<in> set (submitted (dispatch r)). t_orbit_members t = Some ref) \<and>
            (\<forall>tbl. get_orbit_members s ref = Inr tbl \<and>
                   \<not> initialize_use_ray env (worker_count env mp) \<longrightarrow>
               r = iterative_precovery_and_differential_correction env sched s orbits
                     (Some (Value tbl)) observations dir c mp)) \<and>
         (observations = Some (Reference ref) \<longrightarrow>
            filter (is_ObjObservations \<circ> snd) (placed r) = [] \<and>
            (\<forall>t \<in> set (submitted (dispatch r)). t_observations t = Some ref) \<and>
            (\<forall>tbl. get_observations s ref = Inr tbl \<and>
                   \<not> initialize_use_ray env (worker_count env mp) \<longrightarrow>
               r = iterative_precovery_and_differential_correction env sched s orbits
                     orbit_members (Some (Value tbl)) dir c mp))"
proof -
  consider (none) "placed r = []" "dispatch r = []"
    | (some) inp ids where "retrieve_inputs s orbits orbit_members observations = Inr inp"
        "placed r = puts (place_inputs s ids inp)"
        "set (submitted (dispatch r)) \<subseteq> range (chunk_task (place_inputs s ids inp))"
    using entry_placed_cases [of env sched s orbits orbit_members observations dir c mp]
    unfolding r by blast
  then have main:
    "length (filter (is_ObjOrbits \<circ> snd) (placed r)) \<le> 1 \<and>
     length (filter (is_ObjOrbitMembers \<circ> snd) (placed r)) \<le> 1 \<and>
     length (filter (is_ObjObservations \<circ> snd) (placed r)) \<le> 1 \<and>
     (orbits = Reference ref \<longrightarrow>
        filter (is_ObjOrbits \<circ> snd) (placed r) = [] \<and>
        (\<forall>t \<in> set (submitted (dispatch r)). t_orbits t = ref)) \<and>
     (orbit_members = Some (Reference ref) \<longrightarrow>
        filter (is_ObjOrbitMembers \<circ> snd) (placed r) = [] \<and>
        (\<forall>t \<in> set (submitted (dispatch r)). t_orbit_members t = Some ref)) \<and>
     (observations = Some (Reference ref) \<longrightarrow>
        filter (is_ObjObservations \<circ> snd) (placed r) = [] \<and>
        (\<forall>t \<in> set (submitted (dispatch r)). t_observations t = Some ref))"
  proof cases
    case none
    then show ?thesis by simp
  next
    case some
    note refs = retrieve_inputs_refs [OF some(1)]
    have t: "t_orbits (chunk_task pl ix) = orbits_ref pl"
        "t_orbit_members (chunk_task pl ix) = orbit_members_ref pl"
        "t_observations (chunk_task pl ix) = observations_ref pl" for pl ix
      by (simp_all add: chunk_task_def)
    have a: "orbits = Reference ref \<Longrightarrow> \<forall>t \<in> set (submitted (dispatch r)). t_orbits t = ref"
      using some(3) refs(1) [of ref] by (auto simp: t place_inputs_refs)
    have b: "orbit_members = Some (Reference ref) \<Longrightarrow>
             \<forall>t \<in> set (submitted (dispatch r)). t_orbit_members t = Some ref"
      using some(3) refs(2) [of ref] by (auto simp: t place_inputs_refs)
    have c: "observations = Some (Reference ref) \<Longrightarrow>
             \<forall>t \<in> set (submitted (dispatch r)). t_observations t = Some ref"
      using some(3) refs(3) [of ref] by (auto simp: t place_inputs_refs)
    have p: "length (filter (is_ObjOrbits \<circ> snd) (placed r)) \<le> 1"
        "length (filter (is_ObjOrbitMembers \<circ> snd) (placed r)) \<le> 1"
        "length (filter (is_ObjObservations \<circ> snd) (placed r)) \<le> 1"
      unfolding some(2) by (rule placed_at_most_once)+
    have n1: "filter (is_ObjOrbits \<circ> snd) (placed r) = []" if "orbits = Reference ref"
      unfolding some(2) by (rule placed_none(1) [OF refs(1) [OF that]])
    have n2: "filter (is_ObjOrbitMembers \<circ> snd) (placed r) = []"
      if "orbit_members = Some (Reference ref)"
      unfolding some(2) by (rule placed_none(2) [OF refs(2) [OF that]])
    have n3: "filter (is_ObjObservations \<circ> snd) (placed r) = []"
      if "observations = Some (Reference ref)"
      unfolding some(2) by (rule placed_none(3) [OF refs(3) [OF that]])
    show ?thesis
      using a b c p n1 n2 n3 by blast
  qed
  have rb1: "r = iterative_precovery_and_differential_correction env sched s (Value tbl)
                    orbit_members observations dir c mp"
    if "orbits = Reference ref" and g: "get_orbits s ref = Inr tbl"
      and n: "\<not> initialize_use_ray env (worker_count env mp)" for tbl
    unfolding r that(1) by (rule entry_read_back(1) [OF n g])
  have rb2: "r = iterative_precovery_and_differential_correction env sched s orbits
                    (Some (Value tbl)) observations dir c mp"
    if "orbit_members = Some (Reference ref)" and g: "get_orbit_members s ref = Inr tbl"
      and n: "\<not> initialize_use_ray env (worker_count env mp)" for tbl
    unfolding r that(1) by (rule entry_read_back(2) [OF n g])
  have rb3: "r = iterative_precovery_and_differential_correction env sched s orbits
                    orbit_members (Some (Value tbl)) dir c mp"
    if "observations = Some (Reference ref)" and g: "get_observations s ref = Inr tbl"
      and n: "\<not> initialize_use_ray env (worker_count env mp)" for tbl
    unfolding r that(1) by (rule entry_read_back(3) [OF n g])
  have m: "length (filter (is_ObjOrbits \<circ> snd) (placed r)) \<le> 1"
      "length (filter (is_ObjOrbitMembers \<circ> snd) (placed r)) \<le> 1"
      "length (filter (is_ObjObservations \<circ> snd) (placed r)) \<le> 1"
      "orbits = Reference ref \<Longrightarrow> filter (is_ObjOrbits \<circ> snd) (placed r) = []"
      "orbits = Reference ref \<Longrightarrow> \<forall>t \<in> set (submitted (dispatch r)). t_orbits t = ref"
      "orbit_members = Some (Reference ref) \<Longrightarrow>
         filter (is_ObjOrbitMembers \<circ> snd) (placed r) = []"
      "orbit_members = Some (Reference ref) \<Longrightarrow>
         \<forall>t \<in> set (submitted (dispatch r)). t_orbit_members t = Some ref"
      "observations = Some (Reference ref) \<Longrightarrow>
         filter (is_ObjObservations \<circ> snd) (placed r) = []"
      "observations = Some (Reference ref) \<Longrightarrow>
         \<forall>t \<in> set (submitted (dispatch r)). t_observations t = Some ref"
    using main by simp_all
  show ?thesis
  proof (intro conjI impI allI)
    show "length (filter (is_ObjOrbits \<circ> snd) (placed r)) \<le> 1" by (rule m(1))
    show "length (filter (is_ObjOrbitMembers \<circ> snd) (placed r)) \<le> 1" by (rule m(2))
    show "length (filter (is_ObjObservations \<circ> snd) (placed r)) \<le> 1" by (rule m(3))
  next
    assume a: "orbits = Reference ref"
    show "filter (is_ObjOrbits \<circ> snd) (placed r) = []" by (rule m(4) [OF a])
    show "\<forall>t \<in> set (submitted (dispatch r)). t_orbits t = ref" by (rule m(5) [OF a])
    show "r = iterative_precovery_and_differential_correction env sched s (Value tbl)
                orbit_members observations dir c mp"
      if "get_orbits s ref = Inr tbl \<and> \<not> initialize_use_ray env (worker_count env mp)"
      for tbl
      using rb1 [OF a] that by simp
  next
    assume a: "orbit_members = Some (Reference ref)"
    show "filter (is_ObjOrbitMembers \<circ> snd) (placed r) = []" by (rule m(6) [OF a])
    show "\<forall>t \<in> set (submitted (dispatch r)). t_orbit_members t = Some ref"
      by (rule m(7) [OF a])
    show "r = iterative_precovery_and_differential_correction env sched s orbits
                (Some (Value tbl)) observations dir c mp"
      if "get_orbit_members s ref = Inr tbl \<and>
          \<not> initialize_use_ray env (worker_count env mp)"
      for tbl
      using rb2 [OF a] that by simp
  next
    assume a: "observations = Some (Reference ref)"
    show "filter (is_ObjObservations \<circ> snd) (placed r) = []" by (rule m(8) [OF a])
    show "\<forall>t \<in> set (submitted (dispatch r)). t_observations t = Some ref"
      by (rule m(9) [OF a])
    show "r = iterative_precovery_and_differential_correction env sched s orbits
                orbit_members (Some (Value tbl)) dir c mp"
      if "get_observations s ref = Inr tbl \<and>
          \<not> initialize_use_ray env (worker_count env mp)"
      for tbl
      using rb3 [OF a] that by simp
  qed
qed

theorem placement_once_witness:
  "map snd (placed (iterative_precovery_and_differential_correction demo_env (\<lambda>fs. 0)
      demo_store (Reference 0) None None ''index'' 2 (Some 2))) =
     [ObjOrbitIds [''a'', ''b'', ''c'']] \<and>
   filter (is_ObjOrbits \<circ> snd)
     (placed (iterative_precovery_and_differential_correction demo_env (\<lambda>fs. 0)
        demo_store (Reference 0) None None ''index'' 2 (Some 2))) = [] \<and>
   map t_orbits (submitted (dispatch (iterative_precovery_and_differential_correction demo_env
      (\<lambda>fs. 0) demo_store (Reference 0) None None ''index'' 2 (Some 2)))) = [0, 0] \<and>
   iterative_precovery_and_differential_correction demo_env (\<lambda>fs. 0) demo_store
      (Reference 0) None None ''index'' 2 (Some 1) =
   iterative_precovery_and_differential_correction demo_env (\<lambda>fs. 0) demo_store
      (Value [demo_orbit ''a'', demo_orbit ''b'', demo_orbit ''c'']) None None ''index'' 2
      (Some 1)"
proof -
  let ?R = "iterative_precovery_and_differential_correction demo_env (\<lambda>fs. 0)
      demo_store (Reference 0) None None ''index'' 2 (Some 2)"
  note th2 = placement_once [OF refl, of demo_env "\<lambda>fs. 0" demo_store "Reference 0" None None
      "''index''" 2 "Some 2" 0]
  note th1 = placement_once [OF refl, of demo_env "\<lambda>fs. 0" demo_store "Reference 0" None None
      "''index''" 2 "Some 1" 0]
  have v1: "map snd (placed ?R) = [ObjOrbitIds [''a'', ''b'', ''c'']]"
    by code_simp
  have v3: "map t_orbits (submitted (dispatch ?R)) = [0, 0]"
    by code_simp
  have g: "get_orbits demo_store 0 =
      Inr [demo_orbit ''a'', demo_orbit ''b'', demo_orbit ''c'']"
    by (simp add: get_orbits_def ray_get_def demo_store_def)
  have n: "\<not> initialize_use_ray demo_env (worker_count demo_env (Some 1))"
    by (simp add: demo_env_def worker_count_def)
  have f: "filter (is_ObjOrbits \<circ> snd) (placed ?R) = []"
    using th2 by blast
  have e: "iterative_precovery_and_differential_correction demo_env (\<lambda>fs. 0) demo_store
      (Reference 0) None None ''index'' 2 (Some 1) =
   iterative_precovery_and_differential_correction demo_env (\<lambda>fs. 0) demo_store
      (Value [demo_orbit ''a'', demo_orbit ''b'', demo_orbit ''c'']) None None ''index'' 2
      (Some 1)"
    using th1 g n by blast
  show ?thesis using v1 f v3 e by blast
qed

text \<open>
  C10. The references a run frees are among those it placed itself. No object that was in
  the store before the run is freed or changed; in particular a reference supplied by the
  caller for the orbits, the orbit members or the observations is not freed, and after
  the run the store returns for it what it returned before.
\<close>

theorem caller_references_kept:
  assumes r: "r = iterative_precovery_and_differential_correction env sched s orbits
                    orbit_members observations dir c mp"
  shows "set (freed r) \<subseteq> fst ` set (placed r) \<and>
         (\<forall>x < length s. x \<notin> set (freed r) \<and> ray_get (store r) x = ray_get s x) \<and>
         (orbits = Reference ref \<or> orbit_members = Some (Reference ref) \<or>
          observations = Some (Reference ref) \<longrightarrow>
            ref \<notin> set (freed r) \<and> ray_get (store r) ref = ray_get s ref)"
proof -
  note fr = entry_frame [of env sched s orbits orbit_members observations dir c mp,
      folded r]
  have 1: "set (freed r) \<subseteq> fst ` set (placed r)" using fr by blast
  have 2: "x \<notin> set (freed r) \<and> ray_get (store r) x = ray_get s x" if "x < length s" for x
    using fr that by auto
  have 3: "ref \<notin> set (freed r) \<and> ray_get (store r) ref = ray_get s ref"
    if given: "orbits = Reference ref \<or> orbit_members = Some (Reference ref) \<or>
        observations = Some (Reference ref)"
  proof (cases "retrieve_inputs s orbits orbit_members observations")
    case (Inl e)
    then show ?thesis by (simp add: r entry_retrieve_error)
  next
    case (Inr inp)
    show ?thesis using 2 [OF caller_reference_valid [OF Inr given]] .
  qed
  show ?thesis using 1 2 3 by blast
qed

theorem caller_references_kept_witness:
  "freed (iterative_precovery_and_differential_correction demo_env (\<lambda>fs. 0)
      demo_store (Reference 0) None None ''index'' 2 (Some 2)) = [1] \<and>
   0 \<notin> set (freed (iterative_precovery_and_differential_correction demo_env (\<lambda>fs. 0)
      demo_store (Reference 0) None None ''index'' 2 (Some 2))) \<and>
   ray_get (store (iterative_precovery_and_differential_correction demo_env (\<lambda>fs. 0)
      demo_store (Reference 0) None None ''index'' 2 (Some 2))) 0 =
     Inr (ObjOrbits [demo_orbit ''a'', demo_orbit ''b'', demo_orbit ''c'']) \<and>
   store (iterative_precovery_and_differential_correction demo_env (\<lambda>fs. 0)
      demo_store (Reference 0) None None ''index'' 2 (Some 2)) =
     [Some (ObjOrbits [demo_orbit ''a'', demo_orbit ''b'', demo_orbit ''c'']), None]"
proof -
  let ?R = "iterative_precovery_and_differential_correction demo_env (\<lambda>fs. 0)
      demo_store (Reference 0) None None ''index'' 2 (Some 2)"
  note th = caller_references_kept [OF refl, of demo_env "\<lambda>fs. 0" demo_store "Reference 0"
      None None "''index''" 2 "Some 2" 0]
  have k: "0 \<notin> set (freed ?R) \<and> ray_get (store ?R) 0 = ray_get demo_store 0"
    using th by blast
  have g: "ray_get demo_store 0 =
      Inr (ObjOrbits [demo_orbit ''a'', demo_orbit ''b'', demo_orbit ''c''])"
    by (simp add: ray_get_def demo_store_def)
  have vf: "freed ?R = [1]" by code_simp
  have vs: "store ?R =
     [Some (ObjOrbits [demo_orbit ''a'', demo_orbit ''b'', demo_orbit ''c'']), None]"
    by code_simp
  show ?thesis using k g vf vs by simp
qed

end
